theory Spec2Isabelle
  imports Main "HOL-Library.AList"
begin

section \<open>Data model\<close>

text \<open>
  A shallow embedding of \<^verbatim>\<open>buildlib/generic.py\<close> (class \<^verbatim>\<open>GenericPlatform\<close>).
  Python \<^verbatim>\<open>bytes\<close> are lists of 8-bit characters. Python \<^verbatim>\<open>str\<close> values are
  modelled by the same type, i.e. restricted to code points below 256.
  Python method names that start with an underscore lose it here, since an
  Isabelle name cannot start with one.
\<close>

type_synonym bytes = string

text \<open>A path is the tuple of its components, as \<^verbatim>\<open>pathlib\<close>'s \<^verbatim>\<open>.parts\<close>.\<close>

type_synonym path = "string list"

datatype node = File bytes | Dir

text \<open>
  The file system is a finite table from paths to nodes; the order of the table is
  the order in which a directory scan meets the entries.
\<close>

type_synonym filesystem = "(path \<times> node) list"

datatype level = DEBUG | INFO | WARNING | ERROR

type_synonym log_record = "level \<times> string"

text \<open>The exceptions that the code or a module of the host raises.\<close>

datatype exception =
    IndexError
  | ValueError
  | TypeError
  | AttributeError
  | FileNotFoundError
  | IsADirectoryError
  | DistutilsFileError
  | re_error
  | ExtractError

text \<open>
  The object \<^verbatim>\<open>self\<close> together with the world it acts on. \<open>sandbox_patches\<close> is
  \<open>None\<close> while the attribute does not exist: \<^verbatim>\<open>__init__\<close> never assigns it.
  \<open>'rx\<close> is the type of compiled regular expressions of the host's \<^verbatim>\<open>re\<close> module.
\<close>

record 'rx state =
  version :: string
  PLATFORM_RESOURCES :: "path option"
  sandbox_root :: path
  sourcearchive :: path
  sourcearchive_hashes :: path
  sandbox_patches :: "path option"
  domain_regex_cache :: "('rx \<times> bytes) list option"
  fs :: filesystem
  logger :: "log_record list"

text \<open>The host's \<^verbatim>\<open>re\<close> module: \<^verbatim>\<open>re.compile\<close> and \<^verbatim>\<open>pattern.subn(repl, content)\<close>.\<close>

record 'rx re_module =
  compile :: "bytes \<Rightarrow> exception + 'rx"
  subn :: "'rx \<Rightarrow> bytes \<Rightarrow> bytes \<Rightarrow> exception + (bytes \<times> nat)"

definition COMMON_RESOURCES :: path where
  "COMMON_RESOURCES = [''resources'', ''common'']"

definition CLEANING_LIST :: path where
  "CLEANING_LIST = [''cleaning_list'']"

definition DOMAIN_REGEX_LIST :: path where
  "DOMAIN_REGEX_LIST = [''domain_regex_list'']"

definition DOMAIN_SUBSTITUTION_LIST :: path where
  "DOMAIN_SUBSTITUTION_LIST = [''domain_substitution_list'']"

definition PATCHES :: path where
  "PATCHES = [''patches'']"

definition PATCH_ORDER :: path where
  "PATCH_ORDER = [''patch_order'']"

section \<open>Strings and paths of the host language\<close>

definition LF :: char where "LF = CHR 0x0A"
definition CR :: char where "CR = CHR 0x0D"

text \<open>
  \<^verbatim>\<open>s.split(sep)\<close> for a non-empty separator: the pieces between the leftmost
  non-overlapping occurrences of \<open>sep\<close>. The source only calls it with the constant
  separators \<^verbatim>\<open>"\n"\<close>, two spaces and \<^verbatim>\<open>b'#'\<close>.
\<close>

function py_split_aux :: "string \<Rightarrow> string \<Rightarrow> string \<Rightarrow> string list" where
  "py_split_aux sep acc [] = [rev acc]"
| "py_split_aux sep acc (c # cs) =
     (if sep \<noteq> [] \<and> take (length sep) (c # cs) = sep
      then rev acc # py_split_aux sep [] (drop (length sep) (c # cs))
      else py_split_aux sep (c # acc) cs)"
  by pat_completeness auto
termination
  by (relation "measure (\<lambda>(sep, acc, s). length s)") auto

definition py_split :: "string \<Rightarrow> string \<Rightarrow> string list" where
  "py_split sep s = py_split_aux sep [] s"

text \<open>
  \<^verbatim>\<open>splitlines()\<close>: \<open>brk\<close> tells the line boundaries, CR LF counts as one, and no
  empty last line is produced.
\<close>

fun splitlines_aux :: "(char \<Rightarrow> bool) \<Rightarrow> string \<Rightarrow> string \<Rightarrow> string list" where
  "splitlines_aux brk acc [] = (if acc = [] then [] else [rev acc])"
| "splitlines_aux brk acc [c] = (if brk c then [rev acc] else [rev (c # acc)])"
| "splitlines_aux brk acc (c # d # cs) =
     (if c = CR \<and> d = LF then rev acc # splitlines_aux brk [] cs
      else if brk c then rev acc # splitlines_aux brk [] (d # cs)
      else splitlines_aux brk (c # acc) (d # cs))"

definition bytes_linebreak :: "char \<Rightarrow> bool" where
  "bytes_linebreak c \<longleftrightarrow> c = LF \<or> c = CR"

definition str_linebreak :: "char \<Rightarrow> bool" where
  "str_linebreak c \<longleftrightarrow>
     c \<in> set [LF, CR, CHR 0x0B, CHR 0x0C, CHR 0x1C, CHR 0x1D, CHR 0x1E, CHR 0x85]"

text \<open>Reading in text mode translates CR LF and a lone CR to LF.\<close>

fun universal_newlines :: "string \<Rightarrow> string" where
  "universal_newlines [] = []"
| "universal_newlines [c] = [if c = CR then LF else c]"
| "universal_newlines (c # d # cs) =
     (if c = CR \<and> d = LF then LF # universal_newlines cs
      else if c = CR then LF # universal_newlines (d # cs)
      else c # universal_newlines (d # cs))"

definition splitlines :: "bool \<Rightarrow> string \<Rightarrow> string list" where
  "splitlines is_binary s =
     (if is_binary then splitlines_aux bytes_linebreak [] s
      else splitlines_aux str_linebreak [] (universal_newlines s))"

text \<open>\<^verbatim>\<open>a / b\<close> on paths: an absolute right operand replaces the left one.\<close>

definition is_absolute :: "path \<Rightarrow> bool" where
  "is_absolute p = (case p of [] \<Rightarrow> False | r # _ \<Rightarrow> r = ''/'' \<or> r = ''//'')"

definition joinpath :: "path \<Rightarrow> path \<Rightarrow> path" where
  "joinpath a b = (if is_absolute b then b else a @ b)"

definition quoted :: "string \<Rightarrow> string" where
  "quoted s = [CHR 0x27] @ s @ [CHR 0x27]"

section \<open>File access\<close>

definition exists :: "filesystem \<Rightarrow> path \<Rightarrow> bool" where
  "exists f p = (map_of f p \<noteq> None)"

definition read_file :: "filesystem \<Rightarrow> path \<Rightarrow> exception + bytes" where
  "read_file f p =
     (case map_of f p of
        None \<Rightarrow> Inl FileNotFoundError
      | Some Dir \<Rightarrow> Inl IsADirectoryError
      | Some (File c) \<Rightarrow> Inr c)"

definition log_msg :: "level \<Rightarrow> string \<Rightarrow> 'rx state \<Rightarrow> 'rx state" where
  "log_msg l m s = s\<lparr>logger := logger s @ [(l, m)]\<rparr>"

section \<open>The list-resource loader\<close>

text \<open>\<^verbatim>\<open>_read_list_resource(file_name, is_binary)\<close>, lines 92 to 106.\<close>

definition read_list_resource ::
  "'rx state \<Rightarrow> path \<Rightarrow> bool \<Rightarrow> (exception + string list) \<times> 'rx state" where
  "read_list_resource s file_name is_binary =
     (case read_file (fs s) (joinpath COMMON_RESOURCES file_name) of
        Inl e \<Rightarrow> (Inl e, s)
      | Inr c \<Rightarrow>
          (let tmp_list = splitlines is_binary c in
           case PLATFORM_RESOURCES s of
             None \<Rightarrow> (Inr (filter (\<lambda>x. length x > 0) tmp_list), s)
           | Some pr \<Rightarrow>
               (let platform_path = joinpath pr file_name in
                if exists (fs s) platform_path then
                  (case read_file (fs s) platform_path of
                     Inl e \<Rightarrow> (Inl e, s)
                   | Inr c2 \<Rightarrow>
                       (Inr (filter (\<lambda>x. length x > 0)
                               (tmp_list @ splitlines is_binary c2)),
                        log_msg DEBUG ''Successfully appended platform list'' s))
                else (Inr (filter (\<lambda>x. length x > 0) tmp_list), s))))"

section \<open>The domain regex cache\<close>

text \<open>
  The loop of \<^verbatim>\<open>_get_parsed_domain_regexes\<close>, lines 169 to 171; the cache is the
  accumulator, returned also when an exception leaves the loop.
  \<^verbatim>\<open>re.compile(expression[0])\<close> is evaluated before \<^verbatim>\<open>expression[1]\<close>.
\<close>

fun parse_expressions ::
  "'rx re_module \<Rightarrow> bytes list \<Rightarrow> ('rx \<times> bytes) list \<Rightarrow>
     (exception + unit) \<times> ('rx \<times> bytes) list" where
  "parse_expressions re [] cache = (Inr (), cache)"
| "parse_expressions re (expression # rest) cache =
     (case py_split ''#'' expression of
        [] \<Rightarrow> (Inl IndexError, cache)
      | p # others \<Rightarrow>
          (case compile re p of
             Inl e \<Rightarrow> (Inl e, cache)
           | Inr rx \<Rightarrow>
               (case others of
                  [] \<Rightarrow> (Inl IndexError, cache)
                | r # _ \<Rightarrow> parse_expressions re rest (cache @ [(rx, r)]))))"

text \<open>\<^verbatim>\<open>_get_parsed_domain_regexes()\<close>, lines 166 to 172.\<close>

definition get_parsed_domain_regexes ::
  "'rx re_module \<Rightarrow> 'rx state \<Rightarrow> (exception + ('rx \<times> bytes) list) \<times> 'rx state" where
  "get_parsed_domain_regexes re s =
     (case domain_regex_cache s of
        Some c \<Rightarrow> (Inr c, s)
      | None \<Rightarrow>
          (let s0 = s\<lparr>domain_regex_cache := Some []\<rparr> in
           case read_list_resource s0 DOMAIN_REGEX_LIST True of
             (Inl e, s1) \<Rightarrow> (Inl e, s1)
           | (Inr lines, s1) \<Rightarrow>
               (case parse_expressions re lines [] of
                  (Inl e, c) \<Rightarrow> (Inl e, s1\<lparr>domain_regex_cache := Some c\<rparr>)
                | (Inr u, c) \<Rightarrow> (Inr c, s1\<lparr>domain_regex_cache := Some c\<rparr>))))"

text \<open>
  The two fields of a rule line that the parser uses: the bytes before the first
  \<^verbatim>\<open>#\<close>, and the bytes between the first \<^verbatim>\<open>#\<close> and the next one (or the
  end of the line).
\<close>

definition pattern_part :: "bytes \<Rightarrow> bytes" where
  "pattern_part l = takeWhile (\<lambda>c. c \<noteq> CHR ''#'') l"

definition replacement_part :: "bytes \<Rightarrow> bytes" where
  "replacement_part l =
     takeWhile (\<lambda>c. c \<noteq> CHR ''#'') (tl (dropWhile (\<lambda>c. c \<noteq> CHR ''#'') l))"

section \<open>A literal fragment of the regular-expression engine\<close>

text \<open>
  For a pattern made of ordinary bytes only (no metacharacter) and a template without
  backslash, \<^verbatim>\<open>pattern.subn(repl, content)\<close> replaces the leftmost non-overlapping
  occurrences of the pattern by the template and counts them; the empty pattern
  matches once before every byte and once at the end. \<open>literal_re\<close> reads every
  pattern and template that way, so it stands for \<^verbatim>\<open>re\<close> on that fragment only. It
  is used to run the model on concrete inputs.
\<close>

function literal_subn_aux :: "bytes \<Rightarrow> bytes \<Rightarrow> bytes \<Rightarrow> bytes \<times> nat" where
  "literal_subn_aux pat repl [] = ([], 0)"
| "literal_subn_aux pat repl (c # cs) =
     (if pat \<noteq> [] \<and> take (length pat) (c # cs) = pat
      then (case literal_subn_aux pat repl (drop (length pat) (c # cs)) of
              (out, n) \<Rightarrow> (repl @ out, Suc n))
      else (case literal_subn_aux pat repl cs of (out, n) \<Rightarrow> (c # out, n)))"
  by pat_completeness auto
termination
  by (relation "measure (\<lambda>(pat, repl, s). length s)") auto

definition literal_subn :: "bytes \<Rightarrow> bytes \<Rightarrow> bytes \<Rightarrow> bytes \<times> nat" where
  "literal_subn pat repl content =
     (if pat = [] then (repl @ concat (map (\<lambda>c. c # repl) content), Suc (length content))
      else literal_subn_aux pat repl content)"

definition literal_re :: "bytes re_module" where
  "literal_re = \<lparr> compile = (\<lambda>p. Inr p),
                  subn = (\<lambda>pat repl content. Inr (literal_subn pat repl content)) \<rparr>"

section \<open>The hash manifest verifier\<close>

text \<open>
  The host's \<^verbatim>\<open>hashlib\<close>: a name is in \<^verbatim>\<open>hashlib.algorithms_available\<close> exactly when
  it is mapped, and then to the function from the bytes fed to \<^verbatim>\<open>hashlib.new(name)\<close>
  to its \<^verbatim>\<open>hexdigest()\<close>.
\<close>

type_synonym hashlib = "string \<Rightarrow> (bytes \<Rightarrow> string) option"

text \<open>
  The loop of \<^verbatim>\<open>_check_source_archive\<close>, lines 113 to 126, over the lines of the
  manifest. A mismatch logs an error and executes \<^verbatim>\<open>return None\<close>; running off the
  end of the loop returns \<^verbatim>\<open>None\<close> as well, so both are \<open>Inr ()\<close>.
\<close>

fun check_hash_lines ::
  "hashlib \<Rightarrow> string list \<Rightarrow> 'rx state \<Rightarrow> (exception + unit) \<times> 'rx state" where
  "check_hash_lines h [] s = (Inr (), s)"
| "check_hash_lines h (line # rest) s =
     (case py_split ''  '' line of
        [] \<Rightarrow> (Inl IndexError, s)
      | alg # others \<Rightarrow>
          (case h alg of
             None \<Rightarrow>
               check_hash_lines h rest
                 (log_msg WARNING
                    (''Hash algorithm '' @ quoted alg @ '' not available. Skipping...'') s)
           | Some hexdigest \<Rightarrow>
               (let s1 = log_msg INFO (''Running '' @ quoted alg @ '' hash check...'') s in
                case read_file (fs s1) (sourcearchive s1) of
                  Inl e \<Rightarrow> (Inl e, s1)
                | Inr data \<Rightarrow>
                    (case others of
                       [] \<Rightarrow> (Inl IndexError, s1)
                     | expected # _ \<Rightarrow>
                         if hexdigest data = expected
                         then check_hash_lines h rest
                                (log_msg DEBUG (quoted alg @ '' hash matches'') s1)
                         else (Inr (),
                               log_msg ERROR
                                 (''Archive does not have matching '' @ quoted alg @
                                  '' hash '' @ quoted expected) s1)))))"

text \<open>\<^verbatim>\<open>_check_source_archive()\<close>, lines 108 to 126. The manifest is read in text mode.\<close>

definition check_source_archive ::
  "hashlib \<Rightarrow> 'rx state \<Rightarrow> (exception + unit) \<times> 'rx state" where
  "check_source_archive h s =
     (case read_file (fs s) (sourcearchive_hashes s) of
        Inl e \<Rightarrow> (Inl e, s)
      | Inr c \<Rightarrow> check_hash_lines h (py_split [LF] (universal_newlines c)) s)"

section \<open>The archive extractor\<close>

text \<open>
  \<^verbatim>\<open>pathlib.PurePosixPath(s)\<close> as its parts: empty components and \<^verbatim>\<open>.\<close> are dropped,
  and an absolute path starts with its root, which is \<^verbatim>\<open>//\<close> for exactly two
  leading slashes.
\<close>

definition PurePosixPath :: "string \<Rightarrow> path" where
  "PurePosixPath s =
     (let comps = filter (\<lambda>x. x \<noteq> [] \<and> x \<noteq> ''.'') (py_split ''/'' s);
          root = (if take 1 s = ''/''
                  then (if take 2 s = ''//'' \<and> take 3 s \<noteq> ''///'' then [''//''] else [''/''])
                  else [])
      in root @ comps)"

text \<open>\<^verbatim>\<open>p.relative_to(other)\<close>: \<^verbatim>\<open>ValueError\<close> unless \<open>other\<close> is a prefix of \<open>p\<close>.\<close>

definition relative_to :: "path \<Rightarrow> path \<Rightarrow> exception + path" where
  "relative_to p other =
     (let n = length other in
      if (if n = 0 then is_absolute p else take n p \<noteq> other)
      then Inl ValueError else Inr (drop n p))"

fun join_slash :: "string list \<Rightarrow> string" where
  "join_slash [] = []"
| "join_slash [x] = x"
| "join_slash (x # y # ys) = x @ ''/'' @ join_slash (y # ys)"

text \<open>\<^verbatim>\<open>str(p)\<close> of a path.\<close>

definition str_of_path :: "path \<Rightarrow> string" where
  "str_of_path p =
     (case p of
        [] \<Rightarrow> ''.''
      | r # rest \<Rightarrow> if is_absolute p then r @ join_slash rest else join_slash p)"

text \<open>A member of a tar archive: its name and what it holds.\<close>

record tarinfo =
  name :: string
  holds :: node

text \<open>
  The host's \<^verbatim>\<open>tarfile\<close>: opening an archive file and iterating over it gives its
  members in order or fails; \<^verbatim>\<open>_extract_member(tarinfo, destination)\<close> changes the
  file system or fails.
\<close>

record tarfile_module =
  tar_open :: "filesystem \<Rightarrow> path \<Rightarrow> exception + tarinfo list"
  extract_member :: "tarinfo \<Rightarrow> path \<Rightarrow> filesystem \<Rightarrow> exception + filesystem"

text \<open>
  The loop of \<^verbatim>\<open>_extract_source_archive\<close>, lines 154 to 164. \<open>cleaning_list\<close> is the
  caller's list, changed in place, so it is returned also when an exception leaves
  the loop. \<^verbatim>\<open>list.remove\<close> removes the first occurrence.
\<close>

fun extract_members ::
  "tarfile_module \<Rightarrow> tarinfo list \<Rightarrow> string list \<Rightarrow> 'rx state \<Rightarrow>
     (exception + unit) \<times> string list \<times> 'rx state" where
  "extract_members tf [] cleaning_list s = (Inr (), cleaning_list, s)"
| "extract_members tf (ti # rest) cleaning_list s =
     (case relative_to (PurePosixPath (name ti)) (PurePosixPath (''chromium-'' @ version s)) of
        Inl e \<Rightarrow>
          (Inl e, cleaning_list,
           log_msg ERROR (''Exception thrown for tar member '' @ name ti) s)
      | Inr relative_path \<Rightarrow>
          if str_of_path relative_path \<in> set cleaning_list
          then extract_members tf rest (remove1 (str_of_path relative_path) cleaning_list) s
          else
            (let destination = joinpath (sandbox_root s) relative_path in
             case extract_member tf ti destination (fs s) of
               Inl e \<Rightarrow>
                 (Inl e, cleaning_list,
                  log_msg ERROR (''Exception thrown for tar member '' @ name ti) s)
             | Inr f \<Rightarrow> extract_members tf rest cleaning_list (s\<lparr>fs := f\<rparr>)))"

text \<open>\<^verbatim>\<open>_extract_source_archive(cleaning_list)\<close>, lines 143 to 164.\<close>

definition extract_source_archive ::
  "tarfile_module \<Rightarrow> string list \<Rightarrow> 'rx state \<Rightarrow>
     (exception + unit) \<times> string list \<times> 'rx state" where
  "extract_source_archive tf cleaning_list s =
     (case tar_open tf (fs s) (sourcearchive s) of
        Inl e \<Rightarrow> (Inl e, cleaning_list, s)
      | Inr members \<Rightarrow> extract_members tf members cleaning_list s)"

text \<open>
  \<^verbatim>\<open>setup_chromium_source\<close> from line 334 on: the integrity check and the
  extraction. The lines before choose or download the archive and its manifest;
  here the state holds their paths.
\<close>

definition setup_chromium_source ::
  "hashlib \<Rightarrow> tarfile_module \<Rightarrow> bool \<Rightarrow> bool \<Rightarrow> bool \<Rightarrow> 'rx state \<Rightarrow>
     (exception + unit) \<times> 'rx state" where
  "setup_chromium_source h tf check_integrity extract_archive use_cleaning_list s =
     (case (if check_integrity
            then check_source_archive h
                   (log_msg INFO ''Checking source archive integrity...'' s)
            else (Inr (), s)) of
        (Inl e, s1) \<Rightarrow> (Inl e, s1)
      | (Inr u, s1) \<Rightarrow>
          if extract_archive then
            (let s2 = log_msg INFO ''Extracting source archive into building sandbox...'' s1
             in if use_cleaning_list then
                  (case read_list_resource s2 CLEANING_LIST False of
                     (Inl e, s3) \<Rightarrow> (Inl e, s3)
                   | (Inr list_obj, s3) \<Rightarrow>
                       (case extract_source_archive tf list_obj s3 of
                          (Inl e, remaining, s4) \<Rightarrow> (Inl e, s4)
                        | (Inr v, remaining, s4) \<Rightarrow>
                            (Inr (),
                             foldl (\<lambda>st i. log_msg WARNING
                                      (''File does not exist in tar file: '' @ i) st)
                               s4 remaining)))
                else (case extract_source_archive tf [] s2 of
                        (r, remaining, s3) \<Rightarrow> (r, s3)))
          else (Inr (), s1))"

section \<open>The domain substitution engine\<close>

text \<open>
  The inner loop of \<^verbatim>\<open>_domain_substitute\<close>, lines 183 to 186, with its two
  variables \<open>content\<close> and \<open>file_subs\<close>.
\<close>

fun apply_rules ::
  "'rx re_module \<Rightarrow> ('rx \<times> bytes) list \<Rightarrow> bytes \<Rightarrow> nat \<Rightarrow> exception + (bytes \<times> nat)" where
  "apply_rules re [] content file_subs = Inr (content, file_subs)"
| "apply_rules re ((compiled_regex, replacement_regex) # rest) content file_subs =
     (case subn re compiled_regex replacement_regex content of
        Inl e \<Rightarrow> Inl e
      | Inr (content', number_of_subs) \<Rightarrow>
          apply_rules re rest content' (file_subs + number_of_subs))"

text \<open>
  \<^verbatim>\<open>_domain_substitute(regex_list, file_list, log_warnings)\<close>, lines 174 to 195.
  A file is opened in mode \<^verbatim>\<open>r+b\<close>, so it has to exist; writing keeps its place in
  the directory. Any exception is logged with the path and raised again.
\<close>

fun domain_substitute ::
  "'rx re_module \<Rightarrow> ('rx \<times> bytes) list \<Rightarrow> path list \<Rightarrow> bool \<Rightarrow> 'rx state \<Rightarrow>
     (exception + unit) \<times> 'rx state" where
  "domain_substitute re regex_list [] log_warnings s = (Inr (), s)"
| "domain_substitute re regex_list (path # rest) log_warnings s =
     (case read_file (fs s) path of
        Inl e \<Rightarrow>
          (Inl e, log_msg ERROR (''Exception thrown for path '' @ str_of_path path) s)
      | Inr content \<Rightarrow>
          (case apply_rules re regex_list content 0 of
             Inl e \<Rightarrow>
               (Inl e, log_msg ERROR (''Exception thrown for path '' @ str_of_path path) s)
           | Inr (content', file_subs) \<Rightarrow>
               if file_subs > 0
               then domain_substitute re regex_list rest log_warnings
                      (s\<lparr>fs := AList.update path (File content') (fs s)\<rparr>)
               else if log_warnings
               then domain_substitute re regex_list rest log_warnings
                      (log_msg WARNING (''File '' @ str_of_path path @ '' has no matches'') s)
               else domain_substitute re regex_list rest log_warnings s))"

section \<open>The patch assembler\<close>

text \<open>
  Steps on the file system that change it or fail, and their sequence: after a
  failure the later steps do not run and the changes made so far stay.
\<close>

type_synonym fs_step = "filesystem \<Rightarrow> (exception + unit) \<times> filesystem"

definition then_step :: "fs_step \<Rightarrow> fs_step \<Rightarrow> fs_step" where
  "then_step a b f = (case a f of (Inl e, f') \<Rightarrow> (Inl e, f') | (Inr u, f') \<Rightarrow> b f')"

text \<open>
  \<^verbatim>\<open>distutils.dir_util.copy_tree(src, dst)\<close>: it fails unless \<open>src\<close> is a
  directory; otherwise \<open>dst\<close> becomes a directory and every entry below \<open>src\<close> is
  put at the same relative place below \<open>dst\<close>, over what is there. (An entry that
  meets one of the other kind at the destination is not treated apart.)
\<close>

definition copy_tree :: "path \<Rightarrow> path \<Rightarrow> fs_step" where
  "copy_tree src dst f =
     (if map_of f src \<noteq> Some Dir then (Inl DistutilsFileError, f)
      else (Inr (),
            fold (\<lambda>(p, n) acc.
                    if take (length src) p = src
                    then AList.update (dst @ drop (length src) p) n acc else acc)
              f f))"

text \<open>\<^verbatim>\<open>path.unlink()\<close>.\<close>

definition unlink :: "path \<Rightarrow> fs_step" where
  "unlink p f =
     (case map_of f p of
        None \<Rightarrow> (Inl FileNotFoundError, f)
      | Some Dir \<Rightarrow> (Inl IsADirectoryError, f)
      | Some (File c) \<Rightarrow> (Inr (), AList.delete p f))"

text \<open>Opening \<open>p\<close> in mode \<^verbatim>\<open>w\<close> and writing \<open>c\<close>.\<close>

definition write_file :: "path \<Rightarrow> bytes \<Rightarrow> fs_step" where
  "write_file p c f =
     (case map_of f p of
        Some Dir \<Rightarrow> (Inl IsADirectoryError, f)
      | _ \<Rightarrow> (Inr (), AList.update p (File c) f))"

text \<open>
  \<^verbatim>\<open>d.rglob("*.patch")\<close>: the entries below \<open>d\<close> whose name ends in \<^verbatim>\<open>.patch\<close>, and
  nothing when \<open>d\<close> is not a directory.
\<close>

definition rglob_patch :: "filesystem \<Rightarrow> path \<Rightarrow> path list" where
  "rglob_patch f d =
     (if map_of f d \<noteq> Some Dir then []
      else filter (\<lambda>p. length d < length p \<and> take (length d) p = d \<and>
                       length ''.patch'' \<le> length (last p) \<and>
                       drop (length (last p) - length ''.patch'') (last p) = ''.patch'')
             (map fst f))"

text \<open>
  \<^verbatim>\<open>_generate_patches(output_dir, run_domain_substitution)\<close>, lines 197 to 216, in two
  parts. The first part is lines 198 to 212, which build the output directory.
  Line 198 joins \<^verbatim>\<open>self.PLATFORM_RESOURCES\<close> with a path before line 199 tests it for
  \<^verbatim>\<open>None\<close>, which is a \<^verbatim>\<open>TypeError\<close> when it is \<^verbatim>\<open>None\<close>. The order files are read
  and written in text mode.
\<close>

definition assemble_patches :: "path \<Rightarrow> 'rx state \<Rightarrow> (exception + unit) \<times> 'rx state" where
  "assemble_patches output_dir s =
     (case PLATFORM_RESOURCES s of
        None \<Rightarrow> (Inl TypeError, s)
      | Some pr \<Rightarrow>
          (let platform_patch_order = joinpath (joinpath pr PATCHES) PATCH_ORDER;
               platform_patches_exist = exists (fs s) platform_patch_order
           in case read_file (fs s) (joinpath (joinpath COMMON_RESOURCES PATCHES) PATCH_ORDER) of
                Inl e \<Rightarrow> (Inl e, s)
              | Inr c \<Rightarrow>
                  (let s1 = (if platform_patches_exist
                             then log_msg DEBUG ''Using platform patches'' s else s)
                   in case (if platform_patches_exist
                            then (case read_file (fs s1) platform_patch_order of
                                    Inl e \<Rightarrow> Inl e
                                  | Inr c2 \<Rightarrow>
                                      Inr (universal_newlines c @ universal_newlines c2))
                            else Inr (universal_newlines c)) of
                        Inl e \<Rightarrow> (Inl e, s1)
                      | Inr new_patch_order \<Rightarrow>
                          (case then_step
                                  (copy_tree (joinpath COMMON_RESOURCES PATCHES) output_dir)
                                 (then_step (unlink (joinpath output_dir PATCH_ORDER))
                                 (then_step (copy_tree (joinpath pr PATCHES) output_dir)
                                 (then_step (unlink (joinpath output_dir PATCH_ORDER))
                                   (write_file (joinpath output_dir PATCH_ORDER)
                                      new_patch_order))))
                                 (fs s1) of
                             (r, f) \<Rightarrow> (r, s1\<lparr>fs := f\<rparr>)))))"

text \<open>
  The second part is lines 214 to 216. In line 216 the rules are fetched before
  \<^verbatim>\<open>self.sandbox_patches\<close> is read.
\<close>

definition generate_patches ::
  "'rx re_module \<Rightarrow> path \<Rightarrow> bool \<Rightarrow> 'rx state \<Rightarrow> (exception + unit) \<times> 'rx state" where
  "generate_patches re output_dir run_domain_substitution s =
     (case assemble_patches output_dir s of
        (Inl e, s2) \<Rightarrow> (Inl e, s2)
      | (Inr u, s2) \<Rightarrow>
          if run_domain_substitution then
            (case get_parsed_domain_regexes re
                    (log_msg DEBUG ''Running domain substitution over patches...'' s2) of
               (Inl e, s3) \<Rightarrow> (Inl e, s3)
             | (Inr regex_list, s3) \<Rightarrow>
                 (case sandbox_patches s3 of
                    None \<Rightarrow> (Inl AttributeError, s3)
                  | Some sp \<Rightarrow>
                      domain_substitute re regex_list (rglob_patch (fs s3) sp) False s3))
          else (Inr (), s2))"

section \<open>Notions of the statements and example inputs\<close>

text \<open>A platform without platform resources whose regex list has the given content.\<close>

definition regex_state :: "bytes \<Rightarrow> bytes state" where
  "regex_state content =
     \<lparr> version = ''1'', PLATFORM_RESOURCES = None, sandbox_root = [''build_sandbox''],
       sourcearchive = [], sourcearchive_hashes = [], sandbox_patches = None,
       domain_regex_cache = None,
       fs = [([''resources'', ''common'', ''domain_regex_list''], File content)],
       logger = [] \<rparr>"

text \<open>A rule line written as pattern, replacement and trailing rest.\<close>

definition rule_line :: "bytes \<times> bytes \<times> bytes \<Rightarrow> bytes" where
  "rule_line = (\<lambda>(p, r, t). p @ ''#'' @ r @ t)"

text \<open>
  A manifest line passes when it names an algorithm that is not available, or an
  available one together with the digest that is computed; \<open>passing_log\<close> is what
  such a line leaves in the log.
\<close>

definition line_passes :: "hashlib \<Rightarrow> bytes \<Rightarrow> string \<Rightarrow> bool" where
  "line_passes h data line =
     (case py_split ''  '' line of
        [] \<Rightarrow> False
      | alg # others \<Rightarrow>
          (case h alg of
             None \<Rightarrow> True
           | Some hexdigest \<Rightarrow>
               (case others of [] \<Rightarrow> False | expected # _ \<Rightarrow> hexdigest data = expected)))"

definition passing_log :: "hashlib \<Rightarrow> string \<Rightarrow> log_record list" where
  "passing_log h line =
     (case py_split ''  '' line of
        [] \<Rightarrow> []
      | alg # others \<Rightarrow>
          (case h alg of
             None \<Rightarrow>
               [(WARNING, ''Hash algorithm '' @ quoted alg @ '' not available. Skipping...'')]
           | Some hexdigest \<Rightarrow>
               [(INFO, ''Running '' @ quoted alg @ '' hash check...''),
                (DEBUG, quoted alg @ '' hash matches'')]))"

text \<open>
  A registry with the single algorithm \<^verbatim>\<open>md5\<close>, given on three test vectors of
  RFC 1321 (the empty string, \<^verbatim>\<open>a\<close> and \<^verbatim>\<open>abc\<close>); the examples use no other input.
\<close>

definition example_hashlib :: hashlib where
  "example_hashlib alg =
     (if alg = ''md5''
      then Some (\<lambda>data.
             if data = '''' then ''d41d8cd98f00b204e9800998ecf8427e''
             else if data = ''a'' then ''0cc175b9c0f1b6a831c399e269772661''
             else if data = ''abc'' then ''900150983cd24fb0d6963f7d28e17f72''
             else '''')
      else None)"

text \<open>
  A \<^verbatim>\<open>tarfile\<close> for which every readable archive file holds the given members, and
  whose extraction puts what the member holds at the destination and never fails.
\<close>

definition example_tarfile :: "tarinfo list \<Rightarrow> tarfile_module" where
  "example_tarfile members =
     \<lparr> tar_open = (\<lambda>f p. case read_file f p of Inl e \<Rightarrow> Inl e | Inr b \<Rightarrow> Inr members),
       extract_member = (\<lambda>ti destination f. Inr (AList.update destination (holds ti) f)) \<rparr>"

text \<open>
  Version 1 with its archive, the given manifest and the given common cleaning list,
  and an empty sandbox.
\<close>

definition source_state :: "string \<Rightarrow> string \<Rightarrow> bytes state" where
  "source_state manifest cleaning =
     \<lparr> version = ''1'', PLATFORM_RESOURCES = None, sandbox_root = [''build_sandbox''],
       sourcearchive = [''chromium-1.tar.xz''],
       sourcearchive_hashes = [''chromium-1.tar.xz.hashes''],
       sandbox_patches = None, domain_regex_cache = None,
       fs = [([''chromium-1.tar.xz''], File ''a''),
             ([''chromium-1.tar.xz.hashes''], File manifest),
             ([''resources'', ''common'', ''cleaning_list''], File cleaning),
             ([''build_sandbox''], Dir)],
       logger = [] \<rparr>"

text \<open>A manifest of two lines: an algorithm that is not available, then a wrong digest.\<close>

definition two_line_manifest :: string where
  "two_line_manifest = ''sha1  00'' @ [LF] @ ''md5  00'' @ [LF]"

text \<open>Lower case of an ASCII letter; other characters stay.\<close>

definition ascii_lower :: "char \<Rightarrow> char" where
  "ascii_lower c =
     (if (65::nat) \<le> of_char c \<and> of_char c \<le> (90::nat)
      then char_of (of_char c + (32::nat)) else c)"

text \<open>
  The functions of the specification's words for one pass of the rules over a
  content, for an engine whose \<^verbatim>\<open>subn\<close> is the total function \<open>t\<close>: the content
  after every rule was applied in list order, each to the output of the rule before,
  and the sum of the numbers of substitutions.
\<close>

fun content_after :: "('rx \<Rightarrow> bytes \<Rightarrow> bytes \<Rightarrow> bytes \<times> nat) \<Rightarrow> ('rx \<times> bytes) list \<Rightarrow> bytes \<Rightarrow> bytes" where
  "content_after t [] c = c"
| "content_after t ((rx, repl) # rest) c = content_after t rest (fst (t rx repl c))"

fun total_subs :: "('rx \<Rightarrow> bytes \<Rightarrow> bytes \<Rightarrow> bytes \<times> nat) \<Rightarrow> ('rx \<times> bytes) list \<Rightarrow> bytes \<Rightarrow> nat" where
  "total_subs t [] c = 0"
| "total_subs t ((rx, repl) # rest) c =
     snd (t rx repl c) + total_subs t rest (fst (t rx repl c))"

text \<open>
  What the specification says happens to one target file, and to a sequence of them
  one after the other.
\<close>

definition substitute_file ::
  "('rx \<Rightarrow> bytes \<Rightarrow> bytes \<Rightarrow> bytes \<times> nat) \<Rightarrow> ('rx \<times> bytes) list \<Rightarrow> bool \<Rightarrow>
     'rx state \<Rightarrow> path \<Rightarrow> 'rx state" where
  "substitute_file t rules log_warnings s p =
     (case map_of (fs s) p of
        Some (File c) \<Rightarrow>
          if total_subs t rules c > 0
          then s\<lparr>fs := AList.update p (File (content_after t rules c)) (fs s)\<rparr>
          else if log_warnings
          then log_msg WARNING (''File '' @ str_of_path p @ '' has no matches'') s
          else s
      | _ \<Rightarrow> s)"

definition substitute_files ::
  "('rx \<Rightarrow> bytes \<Rightarrow> bytes \<Rightarrow> bytes \<times> nat) \<Rightarrow> ('rx \<times> bytes) list \<Rightarrow> bool \<Rightarrow>
     'rx state \<Rightarrow> path list \<Rightarrow> 'rx state" where
  "substitute_files t rules log_warnings s paths =
     foldl (substitute_file t rules log_warnings) s paths"

text \<open>A platform with the given platform resources, patch directory and files.\<close>

definition patch_state :: "path option \<Rightarrow> path option \<Rightarrow> filesystem \<Rightarrow> bytes state" where
  "patch_state pr sp files =
     \<lparr> version = ''1'', PLATFORM_RESOURCES = pr, sandbox_root = [''build_sandbox''],
       sourcearchive = [], sourcearchive_hashes = [], sandbox_patches = sp,
       domain_regex_cache = None, fs = files, logger = [] \<rparr>"

text \<open>
  Common patches \<^verbatim>\<open>a.patch\<close> and \<^verbatim>\<open>b.patch\<close> with their order file, and the
  regex list \<^verbatim>\<open>foo#bar\<close>.
\<close>

definition common_files :: filesystem where
  "common_files =
     [([''resources''], Dir),
      ([''resources'', ''common''], Dir),
      ([''resources'', ''common'', ''domain_regex_list''], File ''foo#bar''),
      ([''resources'', ''common'', ''patches''], Dir),
      ([''resources'', ''common'', ''patches'', ''patch_order''],
         File (''a.patch'' @ [LF] @ ''b.patch'' @ [LF])),
      ([''resources'', ''common'', ''patches'', ''a.patch''], File ''a foo b''),
      ([''resources'', ''common'', ''patches'', ''b.patch''], File ''baz'')]"

text \<open>A platform directory with the patch \<^verbatim>\<open>c.patch\<close> and its order file.\<close>

definition platform_files :: filesystem where
  "platform_files =
     [([''resources'', ''linux''], Dir),
      ([''resources'', ''linux'', ''patches''], Dir),
      ([''resources'', ''linux'', ''patches'', ''patch_order''],
         File (''c.patch'' @ [LF])),
      ([''resources'', ''linux'', ''patches'', ''c.patch''], File ''foo'')]"

text \<open>A platform directory with the patch \<^verbatim>\<open>c.patch\<close> and no order file.\<close>

definition platform_files_no_order :: filesystem where
  "platform_files_no_order =
     [([''resources'', ''linux''], Dir),
      ([''resources'', ''linux'', ''patches''], Dir),
      ([''resources'', ''linux'', ''patches'', ''c.patch''], File ''foo'')]"

text \<open>Two target files: one holds \<^verbatim>\<open>foo\<close> once, the other does not hold it.\<close>

definition two_files :: filesystem where
  "two_files = [([''f1''], File ''a foo b''), ([''f2''], File ''baz'')]"


text \<open>
  The relative path string under which the extractor looks a member up in the
  cleaning list, for the version \<open>v\<close>.
\<close>

definition relative_name :: "string \<Rightarrow> tarinfo \<Rightarrow> string" where
  "relative_name v ti =
     (case relative_to (PurePosixPath (name ti)) (PurePosixPath (''chromium-'' @ v)) of
        Inl e \<Rightarrow> []
      | Inr relative_path \<Rightarrow> str_of_path relative_path)"

text \<open>An archive that holds the member \<^verbatim>\<open>chromium-1/a\<close> twice, and one that holds it once.\<close>

definition archive_with_repeated_member :: "tarinfo list" where
  "archive_with_repeated_member =
     [\<lparr>name = ''chromium-1/a'', holds = File ''1''\<rparr>,
      \<lparr>name = ''chromium-1/a'', holds = File ''2''\<rparr>]"

definition archive_with_one_member :: "tarinfo list" where
  "archive_with_one_member = [\<lparr>name = ''chromium-1/a'', holds = File ''1''\<rparr>]"

text \<open>
  The members that the loop of the extractor hands to \<^verbatim>\<open>_extract_member\<close>, and the
  relative paths that it skips, for a cleaning list \<open>cl\<close>; \<open>extract_all\<close> extracts
  members one after the other below \<open>root\<close>.
\<close>

fun extracted_members :: "string \<Rightarrow> string list \<Rightarrow> tarinfo list \<Rightarrow> tarinfo list" where
  "extracted_members v cl [] = []"
| "extracted_members v cl (ti # ms) =
     (if relative_name v ti \<in> set cl
      then extracted_members v (remove1 (relative_name v ti) cl) ms
      else ti # extracted_members v cl ms)"

fun skipped_names :: "string \<Rightarrow> string list \<Rightarrow> tarinfo list \<Rightarrow> string list" where
  "skipped_names v cl [] = []"
| "skipped_names v cl (ti # ms) =
     (if relative_name v ti \<in> set cl
      then relative_name v ti # skipped_names v (remove1 (relative_name v ti) cl) ms
      else skipped_names v cl ms)"

fun extract_all ::
  "tarfile_module \<Rightarrow> path \<Rightarrow> string \<Rightarrow> tarinfo list \<Rightarrow> filesystem \<Rightarrow> exception + filesystem" where
  "extract_all tf root v [] f = Inr f"
| "extract_all tf root v (ti # ms) f =
     (case relative_to (PurePosixPath (name ti)) (PurePosixPath (''chromium-'' @ v)) of
        Inl e \<Rightarrow> Inl e
      | Inr relative_path \<Rightarrow>
          (case extract_member tf ti (joinpath root relative_path) f of
             Inl e \<Rightarrow> Inl e
           | Inr f' \<Rightarrow> extract_all tf root v ms f'))"

text \<open>
  A manifest of two lines, each ended by a line feed: an algorithm that is not
  available, then \<^verbatim>\<open>md5\<close> with the digest of the archive in capital letters and the
  file name as a third field.
\<close>

definition upper_case_manifest :: string where
  "upper_case_manifest =
     ''sha1  00'' @ [LF] @
     ''md5  0CC175B9C0F1B6A831C399E269772661  chromium-1.tar.xz'' @ [LF]"

text \<open>The only record that \<^verbatim>\<open>_domain_substitute\<close> logs when nothing fails (line 192).\<close>

definition no_match_warning :: "path \<Rightarrow> log_record" where
  "no_match_warning p = (WARNING, ''File '' @ str_of_path p @ '' has no matches'')"

section \<open>Properties of the parsers\<close>

subsection \<open>Splitting on one byte\<close>

lemma py_split_aux_char:
  "py_split_aux [c] acc s =
     (rev acc @ takeWhile (\<lambda>x. x \<noteq> c) s) #
       (case dropWhile (\<lambda>x. x \<noteq> c) s of [] \<Rightarrow> [] | _ # r \<Rightarrow> py_split_aux [c] [] r)"
  by (induction s arbitrary: acc) auto

lemma py_split_no_sep:
  assumes "c \<notin> set s"
  shows "py_split [c] s = [s]"
proof -
  from assms have d: "dropWhile (\<lambda>x. x \<noteq> c) s = []"
    by (auto simp: dropWhile_eq_Nil_conv)
  from assms have t: "takeWhile (\<lambda>x. x \<noteq> c) s = s"
    by (auto simp: takeWhile_eq_all_conv)
  show ?thesis
    unfolding py_split_def py_split_aux_char[of c "[]" s] d t by simp
qed

lemma py_split_with_sep:
  "c \<in> set s \<Longrightarrow>
     py_split [c] s =
       takeWhile (\<lambda>x. x \<noteq> c) s # py_split [c] (tl (dropWhile (\<lambda>x. x \<noteq> c) s))"
  apply (simp add: py_split_def py_split_aux_char[of c "[]" s] split: list.splits)
  by (auto simp: dropWhile_eq_Nil_conv)

lemma py_split_two_fields:
  "c \<in> set s \<Longrightarrow> \<exists>rest. py_split [c] s =
       takeWhile (\<lambda>x. x \<noteq> c) s #
       takeWhile (\<lambda>x. x \<noteq> c) (tl (dropWhile (\<lambda>x. x \<noteq> c) s)) # rest"
  apply (simp add: py_split_with_sep)
  by (simp add: py_split_def py_split_aux_char[of c "[]" "tl _"])

lemma split_hash_fields:
  "CHR ''#'' \<in> set l \<Longrightarrow>
     \<exists>rest. py_split ''#'' l = pattern_part l # replacement_part l # rest"
  using py_split_two_fields[of "CHR ''#''" l]
  by (simp add: pattern_part_def replacement_part_def)

lemma pattern_part_rule_line:
  "CHR ''#'' \<notin> set p \<Longrightarrow> pattern_part (rule_line (p, r, t)) = p"
  by (induction p) (auto simp: pattern_part_def rule_line_def)

lemma replacement_part_rule_line:
  assumes "CHR ''#'' \<notin> set p" and "CHR ''#'' \<notin> set r" and "t = [] \<or> hd t = CHR ''#''"
  shows "replacement_part (rule_line (p, r, t)) = r"
proof -
  from assms(1) have "dropWhile (\<lambda>c. c \<noteq> CHR ''#'') (p @ ''#'' @ r @ t) = ''#'' @ r @ t"
    by (induction p) auto
  moreover from assms(3) have "takeWhile (\<lambda>c. c \<noteq> CHR ''#'') t = []"
    by (cases t) auto
  with assms(2) have "takeWhile (\<lambda>c. c \<noteq> CHR ''#'') (r @ t) = r"
    by (induction r) auto
  ultimately show ?thesis
    by (simp add: replacement_part_def rule_line_def)
qed

subsection \<open>The loop over the rule lines\<close>

lemma parse_expressions_rules:
  assumes "\<forall>l \<in> set lines. CHR ''#'' \<in> set l"
      and "\<forall>l \<in> set lines. compile re (pattern_part l) = Inr (rx_of l)"
  shows "parse_expressions re lines cache =
           (Inr (), cache @ map (\<lambda>l. (rx_of l, replacement_part l)) lines)"
  using assms
proof (induction lines arbitrary: cache)
  case Nil
  then show ?case by simp
next
  case (Cons l lines)
  from Cons.prems obtain rest
    where sp: "py_split ''#'' l = pattern_part l # replacement_part l # rest"
    using split_hash_fields[of l] by auto
  from Cons.prems have c: "compile re (pattern_part l) = Inr (rx_of l)" by simp
  from Cons.prems
  have "parse_expressions re lines (cache @ [(rx_of l, replacement_part l)]) =
      (Inr (), (cache @ [(rx_of l, replacement_part l)]) @
                 map (\<lambda>l. (rx_of l, replacement_part l)) lines)"
    by (intro Cons.IH) auto
  with sp c show ?case by simp
qed

lemma parse_expressions_stops_short:
  assumes "l \<in> set lines" and "CHR ''#'' \<notin> set l"
  shows "\<exists>e c. parse_expressions re lines cache = (Inl e, c) \<and>
           length c < length cache + length lines"
  using assms
proof (induction lines arbitrary: cache)
  case Nil
  then show ?case by simp
next
  case (Cons x lines)
  show ?case
  proof (cases "x = l")
    case True
    with Cons.prems have "py_split ''#'' x = [x]"
      using py_split_no_sep[of "CHR ''#''" x] by simp
    then show ?thesis by (simp split: sum.splits)
  next
    case False
    with Cons.prems have "l \<in> set lines" by simp
    from Cons.IH[OF this Cons.prems(2)] show ?thesis
      by (fastforce split: list.splits sum.splits)
  qed
qed

subsection \<open>Rule lines\<close>

text \<open>
  C6 (as amended). When the cache is empty, every line of the regex list is cut at
  every \<^verbatim>\<open>#\<close> byte: the bytes before the first \<^verbatim>\<open>#\<close> are compiled as the pattern
  and the bytes between the first and the second \<^verbatim>\<open>#\<close> (up to the end of the line
  when there is no second one) are kept as the replacement. Whatever follows a second
  \<^verbatim>\<open>#\<close>, written \<open>t\<close> below, is dropped.
\<close>

theorem rule_fields_between_hashes:
  assumes cache: "domain_regex_cache s = None"
    and rd: "read_list_resource (s\<lparr>domain_regex_cache := Some []\<rparr>) DOMAIN_REGEX_LIST True =
               (Inr (map rule_line ts), s1)"
    and wf: "\<forall>(p, r, t) \<in> set ts. CHR ''#'' \<notin> set p \<and> CHR ''#'' \<notin> set r \<and>
               (t = [] \<or> hd t = CHR ''#'') \<and> compile re p = Inr (rx_of p)"
  shows "get_parsed_domain_regexes re s =
           (Inr (map (\<lambda>(p, r, t). (rx_of p, r)) ts),
            s1\<lparr>domain_regex_cache := Some (map (\<lambda>(p, r, t). (rx_of p, r)) ts)\<rparr>)"
proof -
  let ?lines = "map rule_line ts"
  have h: "\<forall>l \<in> set ?lines. CHR ''#'' \<in> set l"
    by (auto simp: rule_line_def)
  have pp: "pattern_part (rule_line x) = fst x"
    and rp: "replacement_part (rule_line x) = fst (snd x)"
    if "x \<in> set ts" for x
    using that wf pattern_part_rule_line[of "fst x" "fst (snd x)" "snd (snd x)"]
      replacement_part_rule_line[of "fst x" "fst (snd x)" "snd (snd x)"]
    by (cases x; fastforce)+
  have c: "\<forall>l \<in> set ?lines. compile re (pattern_part l) = Inr ((rx_of \<circ> pattern_part) l)"
    using wf pp by fastforce
  have m: "map (\<lambda>l. ((rx_of \<circ> pattern_part) l, replacement_part l)) ?lines =
           map (\<lambda>(p, r, t). (rx_of p, r)) ts"
    using pp rp by (auto simp: case_prod_beta)
  from parse_expressions_rules[OF h c, of "[]"] m
  have "parse_expressions re ?lines [] = (Inr (), map (\<lambda>(p, r, t). (rx_of p, r)) ts)"
    by simp
  with cache rd show ?thesis
    by (simp add: get_parsed_domain_regexes_def)
qed

theorem rule_fields_between_hashes_witness:
  "domain_regex_cache (regex_state ''x#y#z'') = None \<and>
   read_list_resource ((regex_state ''x#y#z'')\<lparr>domain_regex_cache := Some []\<rparr>)
       DOMAIN_REGEX_LIST True =
     (Inr (map rule_line [(''x'', ''y'', ''#z'')]),
      (regex_state ''x#y#z'')\<lparr>domain_regex_cache := Some []\<rparr>) \<and>
   fst (get_parsed_domain_regexes literal_re (regex_state ''x#y#z'')) = Inr [(''x'', ''y'')]"
proof -
  let ?s = "regex_state ''x#y#z''"
  have cache: "domain_regex_cache ?s = None" by (simp add: regex_state_def)
  have rd: "read_list_resource (?s\<lparr>domain_regex_cache := Some []\<rparr>) DOMAIN_REGEX_LIST True =
              (Inr (map rule_line [(''x'', ''y'', ''#z'')]),
               ?s\<lparr>domain_regex_cache := Some []\<rparr>)"
    by code_simp
  have wf: "\<forall>(p, r, t) \<in> set [(''x'', ''y'', ''#z'')].
               CHR ''#'' \<notin> set p \<and> CHR ''#'' \<notin> set r \<and>
               (t = [] \<or> hd t = CHR ''#'') \<and> compile literal_re p = Inr ((\<lambda>p. p) p)"
    by (simp add: literal_re_def)
  from rule_fields_between_hashes[OF cache rd wf] cache rd show ?thesis by simp
qed

text \<open>
  C6 as stated fails: the line \<^verbatim>\<open>a#b#c\<close> gives the replacement \<^verbatim>\<open>b\<close>, not
  \<^verbatim>\<open>b#c\<close>.
\<close>

theorem replacement_with_hash_counterexample:
  "fst (get_parsed_domain_regexes literal_re (regex_state ''a#b#c'')) = Inr [(''a'', ''b'')] \<and>
   fst (get_parsed_domain_regexes literal_re (regex_state ''a#b#c'')) \<noteq> Inr [(''a'', ''b#c'')]"
  by code_simp

text \<open>
  C10. The regex list holds the rule line \<^verbatim>\<open>foo#bar\<close> and then the line \<^verbatim>\<open>baz\<close>,
  which has no \<^verbatim>\<open>#\<close> byte. The first call of \<^verbatim>\<open>_get_parsed_domain_regexes\<close> raises
  \<^verbatim>\<open>IndexError\<close> at the second line, as the claim says, but it leaves the rule of the
  first line in the cache, which line 168 has assigned before the loop. A second call
  on the same object then raises nothing and returns this partial rule set.
\<close>

theorem malformed_list_yields_partial_rule_set:
  "read_list_resource (regex_state (''foo#bar'' @ [LF] @ ''baz'')) DOMAIN_REGEX_LIST True =
     (Inr [''foo#bar'', ''baz''], regex_state (''foo#bar'' @ [LF] @ ''baz'')) \<and>
   get_parsed_domain_regexes literal_re (regex_state (''foo#bar'' @ [LF] @ ''baz'')) =
     (Inl IndexError,
      (regex_state (''foo#bar'' @ [LF] @ ''baz''))
        \<lparr>domain_regex_cache := Some [(''foo'', ''bar'')]\<rparr>) \<and>
   fst (get_parsed_domain_regexes literal_re
          (snd (get_parsed_domain_regexes literal_re
                  (regex_state (''foo#bar'' @ [LF] @ ''baz''))))) =
     Inr [(''foo'', ''bar'')]"
  by code_simp

text \<open>
  The same for every regex list and every regular-expression engine. When the cache
  is not yet assigned and some line of the list (a non-empty line, as the loader
  drops the empty ones) has no \<^verbatim>\<open>#\<close> byte, the call raises: the line is neither
  skipped nor turned into a rule. The cache is left assigned, with fewer rules than
  the list has lines, and the next call returns it.
\<close>

lemma malformed_list_raises_then_returns:
  assumes cache: "domain_regex_cache s = None"
    and rd: "read_list_resource (s\<lparr>domain_regex_cache := Some []\<rparr>) DOMAIN_REGEX_LIST True =
               (Inr lines, s1)"
    and l: "l \<in> set lines" "CHR ''#'' \<notin> set l"
  shows "\<exists>e c. get_parsed_domain_regexes re s = (Inl e, s1\<lparr>domain_regex_cache := Some c\<rparr>) \<and>
           length c < length lines \<and>
           get_parsed_domain_regexes re (s1\<lparr>domain_regex_cache := Some c\<rparr>) =
             (Inr c, s1\<lparr>domain_regex_cache := Some c\<rparr>)"
proof -
  from parse_expressions_stops_short[OF l, of re "[]"]
  obtain e c where p: "parse_expressions re lines [] = (Inl e, c)"
    and len: "length c < length lines"
    by auto
  have first: "get_parsed_domain_regexes re s = (Inl e, s1\<lparr>domain_regex_cache := Some c\<rparr>)"
    using cache rd p by (simp add: get_parsed_domain_regexes_def)
  have second: "get_parsed_domain_regexes re (s1\<lparr>domain_regex_cache := Some c\<rparr>) =
      (Inr c, s1\<lparr>domain_regex_cache := Some c\<rparr>)"
    by (simp add: get_parsed_domain_regexes_def)
  from first len second show ?thesis by blast
qed

section \<open>Properties of the hash manifest verifier\<close>

lemma py_split_aux_absent:
  "c \<notin> set s \<Longrightarrow> c \<in> set sep \<Longrightarrow> py_split_aux sep acc s = [rev acc @ s]"
proof (induction s arbitrary: acc)
  case Nil
  then show ?case by simp
next
  case (Cons x xs)
  have "take (length sep) (x # xs) \<noteq> sep"
  proof
    assume "take (length sep) (x # xs) = sep"
    then have "set sep \<subseteq> set (x # xs)" by (metis set_take_subset)
    with Cons.prems show False by auto
  qed
  with Cons show ?case by simp
qed

lemma py_split_aux_two_spaces:
  "CHR '' '' \<notin> set a \<Longrightarrow>
     py_split_aux ''  '' acc (a @ ''  '' @ r) = (rev acc @ a) # py_split_aux ''  '' [] r"
proof (induction a arbitrary: acc)
  case Nil
  then show ?case by simp
next
  case (Cons x xs)
  then have "take 2 (x # xs @ ''  '' @ r) \<noteq> ''  ''"
    by (cases xs) auto
  with Cons show ?case by simp
qed

text \<open>
  A manifest line of the usual form, an algorithm name and a digest without spaces
  with two spaces between them, has these two as its fields.
\<close>

lemma manifest_line_fields:
  assumes "CHR '' '' \<notin> set alg" and "CHR '' '' \<notin> set expected"
  shows "py_split ''  '' (alg @ ''  '' @ expected) = [alg, expected]"
proof -
  have "py_split_aux ''  '' [] expected = [expected]"
    using py_split_aux_absent[of "CHR '' ''" expected "''  ''" "[]"] assms(2) by simp
  then show ?thesis
    using py_split_aux_two_spaces[of alg "[]" expected] assms(1) by (simp add: py_split_def)
qed

lemma universal_newlines_id: "CR \<notin> set s \<Longrightarrow> universal_newlines s = s"
  by (induction s rule: universal_newlines.induct) auto

lemma log_msg_fields [simp]:
  "fs (log_msg l m s) = fs s"
  "sourcearchive (log_msg l m s) = sourcearchive s"
  "sourcearchive_hashes (log_msg l m s) = sourcearchive_hashes s"
  "version (log_msg l m s) = version s"
  "sandbox_root (log_msg l m s) = sandbox_root s"
  "PLATFORM_RESOURCES (log_msg l m s) = PLATFORM_RESOURCES s"
  "sandbox_patches (log_msg l m s) = sandbox_patches s"
  "domain_regex_cache (log_msg l m s) = domain_regex_cache s"
  "logger (log_msg l m s) = logger s @ [(l, m)]"
  by (simp_all add: log_msg_def)

lemma check_hash_lines_passing:
  assumes "\<forall>l \<in> set pre. line_passes h data l"
    and "read_file (fs s) (sourcearchive s) = Inr data"
  shows "check_hash_lines h (pre @ rest) s =
           check_hash_lines h rest (s\<lparr>logger := logger s @ concat (map (passing_log h) pre)\<rparr>)"
  using assms
proof (induction pre arbitrary: s)
  case Nil
  then show ?case by simp
next
  case (Cons l pre)
  from Cons.prems(1) have lp: "line_passes h data l" and rest: "\<forall>l \<in> set pre. line_passes h data l"
    by simp_all
  from lp obtain alg others where sp: "py_split ''  '' l = alg # others"
    by (auto simp: line_passes_def split: list.splits)
  show ?case
  proof (cases "h alg")
    case None
    let ?s1 = "log_msg WARNING (''Hash algorithm '' @ quoted alg @ '' not available. Skipping...'') s"
    have "check_hash_lines h ((l # pre) @ rest) s = check_hash_lines h (pre @ rest) ?s1"
      using sp None by simp
    also have "\<dots> = check_hash_lines h rest
        (?s1\<lparr>logger := logger ?s1 @ concat (map (passing_log h) pre)\<rparr>)"
      using Cons.prems(2) by (intro Cons.IH rest) simp
    also have "?s1\<lparr>logger := logger ?s1 @ concat (map (passing_log h) pre)\<rparr> =
        s\<lparr>logger := logger s @ concat (map (passing_log h) (l # pre))\<rparr>"
      using sp None by (simp add: log_msg_def passing_log_def)
    finally show ?thesis .
  next
    case (Some hexdigest)
    with lp sp obtain expected more' where o: "others = expected # more'"
      and eq: "hexdigest data = expected"
      by (auto simp: line_passes_def split: list.splits)
    let ?s1 = "log_msg DEBUG (quoted alg @ '' hash matches'')
                 (log_msg INFO (''Running '' @ quoted alg @ '' hash check...'') s)"
    have "check_hash_lines h ((l # pre) @ rest) s = check_hash_lines h (pre @ rest) ?s1"
      using sp Some o eq Cons.prems(2) by (simp add: Let_def)
    also have "\<dots> = check_hash_lines h rest
        (?s1\<lparr>logger := logger ?s1 @ concat (map (passing_log h) pre)\<rparr>)"
      using Cons.prems(2) by (intro Cons.IH rest) simp
    also have "?s1\<lparr>logger := logger ?s1 @ concat (map (passing_log h) pre)\<rparr> =
        s\<lparr>logger := logger s @ concat (map (passing_log h) (l # pre))\<rparr>"
      using sp Some by (simp add: log_msg_def passing_log_def)
    finally show ?thesis .
  qed
qed

lemma check_hash_lines_mismatch:
  assumes "read_file (fs s) (sourcearchive s) = Inr data"
    and "py_split ''  '' line = alg # expected # more'"
    and "h alg = Some hexdigest"
    and "hexdigest data \<noteq> expected"
  shows "check_hash_lines h (line # post) s =
           (Inr (), s\<lparr>logger := logger s @
              [(INFO, ''Running '' @ quoted alg @ '' hash check...''),
               (ERROR, ''Archive does not have matching '' @ quoted alg @
                       '' hash '' @ quoted expected)]\<rparr>)"
  using assms by (simp add: Let_def log_msg_def)

lemma check_hash_lines_available:
  assumes "read_file (fs s) (sourcearchive s) = Inr data"
    and "py_split ''  '' line = alg # expected # more'"
    and "h alg = Some hexdigest"
  shows "check_hash_lines h (line # post) s =
           (if hexdigest data = expected
            then check_hash_lines h post
                   (s\<lparr>logger := logger s @
                      [(INFO, ''Running '' @ quoted alg @ '' hash check...''),
                       (DEBUG, quoted alg @ '' hash matches'')]\<rparr>)
            else (Inr (), s\<lparr>logger := logger s @
                    [(INFO, ''Running '' @ quoted alg @ '' hash check...''),
                     (ERROR, ''Archive does not have matching '' @ quoted alg @
                             '' hash '' @ quoted expected)]\<rparr>))"
  using assms by (simp add: Let_def log_msg_def)

text \<open>
  C1 (as amended). When the first manifest line that does not pass names an
  available algorithm with an expected digest other than the computed one, the
  verifier logs an error that names the algorithm and the expected digest only, reads
  no further line and returns normally, as it does when every line passes; and
  \<^verbatim>\<open>setup_chromium_source\<close> then goes on exactly as if no check had been asked for.
\<close>

theorem mismatch_is_logged_and_not_fatal:
  assumes manifest: "read_file (fs s) (sourcearchive_hashes s) = Inr c"
    and lines: "py_split [LF] (universal_newlines c) = pre @ line # post"
    and archive: "read_file (fs s) (sourcearchive s) = Inr data"
    and pre: "\<forall>l \<in> set pre. line_passes h data l"
    and line: "py_split ''  '' line = alg # expected # more'"
    and alg: "h alg = Some hexdigest"
    and differs: "hexdigest data \<noteq> expected"
  shows "check_source_archive h s =
           (Inr (), s\<lparr>logger := logger s @ concat (map (passing_log h) pre) @
              [(INFO, ''Running '' @ quoted alg @ '' hash check...''),
               (ERROR, ''Archive does not have matching '' @ quoted alg @
                       '' hash '' @ quoted expected)]\<rparr>) \<and>
         setup_chromium_source h tf True extract_archive use_cleaning_list s =
           setup_chromium_source h tf False extract_archive use_cleaning_list
             (s\<lparr>logger := logger s @ [(INFO, ''Checking source archive integrity...'')] @
                concat (map (passing_log h) pre) @
                [(INFO, ''Running '' @ quoted alg @ '' hash check...''),
                 (ERROR, ''Archive does not have matching '' @ quoted alg @
                         '' hash '' @ quoted expected)]\<rparr>)"
proof -
  have run: "check_source_archive h t =
           (Inr (), t\<lparr>logger := logger t @ concat (map (passing_log h) pre) @
              [(INFO, ''Running '' @ quoted alg @ '' hash check...''),
               (ERROR, ''Archive does not have matching '' @ quoted alg @
                       '' hash '' @ quoted expected)]\<rparr>)"
    if t: "fs t = fs s" "sourcearchive t = sourcearchive s"
          "sourcearchive_hashes t = sourcearchive_hashes s" for t :: "'a state"
  proof -
    let ?t1 = "t\<lparr>logger := logger t @ concat (map (passing_log h) pre)\<rparr>"
    have "check_source_archive h t = check_hash_lines h (pre @ line # post) t"
      using manifest lines t by (simp add: check_source_archive_def)
    also have "\<dots> = check_hash_lines h (line # post) ?t1"
      using check_hash_lines_passing[of pre h data t "line # post"] pre archive t by simp
    also have "\<dots> = (Inr (), ?t1\<lparr>logger := logger ?t1 @
              [(INFO, ''Running '' @ quoted alg @ '' hash check...''),
               (ERROR, ''Archive does not have matching '' @ quoted alg @
                       '' hash '' @ quoted expected)]\<rparr>)"
      using check_hash_lines_mismatch[of ?t1 data line alg expected more' h hexdigest post]
        archive t line alg differs by simp
    finally show ?thesis by simp
  qed
  have first: "check_source_archive h s =
           (Inr (), s\<lparr>logger := logger s @ concat (map (passing_log h) pre) @
              [(INFO, ''Running '' @ quoted alg @ '' hash check...''),
               (ERROR, ''Archive does not have matching '' @ quoted alg @
                       '' hash '' @ quoted expected)]\<rparr>)"
    by (rule run) simp_all
  have second: "check_source_archive h (log_msg INFO ''Checking source archive integrity...'' s) =
           (Inr (), s\<lparr>logger := logger s @ [(INFO, ''Checking source archive integrity...'')] @
                concat (map (passing_log h) pre) @
                [(INFO, ''Running '' @ quoted alg @ '' hash check...''),
                 (ERROR, ''Archive does not have matching '' @ quoted alg @
                         '' hash '' @ quoted expected)]\<rparr>)"
    by (subst run) (simp_all add: log_msg_def)
  show ?thesis
    using first second by (simp add: setup_chromium_source_def)
qed

theorem mismatch_is_logged_and_not_fatal_witness:
  "read_file (fs (source_state two_line_manifest ''''))
     (sourcearchive_hashes (source_state two_line_manifest '''')) = Inr two_line_manifest \<and>
   py_split [LF] (universal_newlines two_line_manifest) =
     [''sha1  00''] @ ''md5  00'' # [''''] \<and>
   read_file (fs (source_state two_line_manifest ''''))
     (sourcearchive (source_state two_line_manifest '''')) = Inr ''a'' \<and>
   line_passes example_hashlib ''a'' ''sha1  00'' \<and>
   py_split ''  '' ''md5  00'' = ''md5'' # ''00'' # [] \<and>
   example_hashlib ''md5'' = Some (the (example_hashlib ''md5'')) \<and>
   the (example_hashlib ''md5'') ''a'' \<noteq> ''00'' \<and>
   check_source_archive example_hashlib (source_state two_line_manifest '''') =
     (Inr (), (source_state two_line_manifest '''')
        \<lparr>logger := logger (source_state two_line_manifest '''') @
           concat (map (passing_log example_hashlib) [''sha1  00'']) @
           [(INFO, ''Running '' @ quoted ''md5'' @ '' hash check...''),
            (ERROR, ''Archive does not have matching '' @ quoted ''md5'' @
                    '' hash '' @ quoted ''00'')]\<rparr>)"
proof -
  let ?s = "source_state two_line_manifest ''''"
  have manifest: "read_file (fs ?s) (sourcearchive_hashes ?s) = Inr two_line_manifest"
    by code_simp
  have lines: "py_split [LF] (universal_newlines two_line_manifest) =
      [''sha1  00''] @ ''md5  00'' # ['''']"
    by code_simp
  have archive: "read_file (fs ?s) (sourcearchive ?s) = Inr ''a''"
    by code_simp
  have p: "line_passes example_hashlib ''a'' ''sha1  00''"
    by code_simp
  then have pre: "\<forall>l \<in> set [''sha1  00'']. line_passes example_hashlib ''a'' l"
    by simp
  have line: "py_split ''  '' ''md5  00'' = ''md5'' # ''00'' # []"
    by code_simp
  have alg: "example_hashlib ''md5'' = Some (the (example_hashlib ''md5''))"
    by (simp add: example_hashlib_def)
  have differs: "the (example_hashlib ''md5'') ''a'' \<noteq> ''00''"
    by (simp add: example_hashlib_def)
  note concl = mismatch_is_logged_and_not_fatal[OF manifest lines archive pre line alg differs,
      THEN conjunct1]
  show ?thesis
    by (intro conjI manifest lines archive p line alg differs concl)
qed

text \<open>
  C1 as stated fails. The manifest names \<^verbatim>\<open>md5\<close> with a digest that is not the
  archive's. The verifier returns what it returns for the right digest, its error
  message holds the algorithm and the expected digest but not the computed one, and
  \<^verbatim>\<open>setup_chromium_source\<close> returns normally with the archive extracted.
\<close>

theorem mismatch_not_a_failure_counterexample:
  "fst (check_source_archive example_hashlib
          (source_state ''md5  00000000000000000000000000000000'' '''')) = Inr () \<and>
   fst (check_source_archive example_hashlib
          (source_state ''md5  0cc175b9c0f1b6a831c399e269772661'' '''')) = Inr () \<and>
   logger (snd (check_source_archive example_hashlib
          (source_state ''md5  00000000000000000000000000000000'' ''''))) =
     [(INFO, ''Running '' @ quoted ''md5'' @ '' hash check...''),
      (ERROR, ''Archive does not have matching '' @ quoted ''md5'' @ '' hash '' @
              quoted ''00000000000000000000000000000000'')] \<and>
   fst (setup_chromium_source example_hashlib
          (example_tarfile [\<lparr>name = ''chromium-1/f.txt'', holds = File ''x''\<rparr>])
          True True False
          (source_state ''md5  00000000000000000000000000000000'' '''')) = Inr () \<and>
   map_of (fs (snd (setup_chromium_source example_hashlib
          (example_tarfile [\<lparr>name = ''chromium-1/f.txt'', holds = File ''x''\<rparr>])
          True True False
          (source_state ''md5  00000000000000000000000000000000'' ''''))))
     [''build_sandbox'', ''f.txt''] = Some (File ''x'')"
  by code_simp

text \<open>
  C7 (as amended). The verifier compares the computed hexadecimal digest with the
  expected one by equality of strings, at every line of the manifest that it reaches
  and that names an available algorithm: in a manifest of any number of lines, with
  any further fields after the digest, when every line before this one passes. If the
  two strings are equal, the check logs that the hash matches and goes on with the
  lines that follow; if they are not, also when they differ in letter case only, it
  logs the mismatch error and returns. The first conjunct is the step of the loop at
  such a line from any state, the second is the whole check.
\<close>

theorem digest_is_compared_by_equality:
  assumes manifest: "read_file (fs s) (sourcearchive_hashes s) = Inr c"
    and lines: "py_split [LF] (universal_newlines c) = pre @ line # post"
    and archive: "read_file (fs s) (sourcearchive s) = Inr data"
    and pre: "\<forall>l \<in> set pre. line_passes h data l"
    and line: "py_split ''  '' line = alg # expected # more'"
    and alg: "h alg = Some hexdigest"
  shows "check_hash_lines h (line # post) s =
           (if hexdigest data = expected
            then check_hash_lines h post
                   (s\<lparr>logger := logger s @
                      [(INFO, ''Running '' @ quoted alg @ '' hash check...''),
                       (DEBUG, quoted alg @ '' hash matches'')]\<rparr>)
            else (Inr (), s\<lparr>logger := logger s @
                    [(INFO, ''Running '' @ quoted alg @ '' hash check...''),
                     (ERROR, ''Archive does not have matching '' @ quoted alg @
                             '' hash '' @ quoted expected)]\<rparr>)) \<and>
         check_source_archive h s =
           (if hexdigest data = expected
            then check_hash_lines h post
                   (s\<lparr>logger := logger s @ concat (map (passing_log h) pre) @
                      [(INFO, ''Running '' @ quoted alg @ '' hash check...''),
                       (DEBUG, quoted alg @ '' hash matches'')]\<rparr>)
            else (Inr (), s\<lparr>logger := logger s @ concat (map (passing_log h) pre) @
                    [(INFO, ''Running '' @ quoted alg @ '' hash check...''),
                     (ERROR, ''Archive does not have matching '' @ quoted alg @
                             '' hash '' @ quoted expected)]\<rparr>))"
proof (intro conjI)
  show "check_hash_lines h (line # post) s =
           (if hexdigest data = expected
            then check_hash_lines h post
                   (s\<lparr>logger := logger s @
                      [(INFO, ''Running '' @ quoted alg @ '' hash check...''),
                       (DEBUG, quoted alg @ '' hash matches'')]\<rparr>)
            else (Inr (), s\<lparr>logger := logger s @
                    [(INFO, ''Running '' @ quoted alg @ '' hash check...''),
                     (ERROR, ''Archive does not have matching '' @ quoted alg @
                             '' hash '' @ quoted expected)]\<rparr>))"
    using archive line alg by (rule check_hash_lines_available)
next
  let ?s1 = "s\<lparr>logger := logger s @ concat (map (passing_log h) pre)\<rparr>"
  have "check_source_archive h s = check_hash_lines h (pre @ line # post) s"
    using manifest lines by (simp add: check_source_archive_def)
  also have "\<dots> = check_hash_lines h (line # post) ?s1"
    using pre archive by (rule check_hash_lines_passing)
  also have "\<dots> =
           (if hexdigest data = expected
            then check_hash_lines h post
                   (?s1\<lparr>logger := logger ?s1 @
                      [(INFO, ''Running '' @ quoted alg @ '' hash check...''),
                       (DEBUG, quoted alg @ '' hash matches'')]\<rparr>)
            else (Inr (), ?s1\<lparr>logger := logger ?s1 @
                    [(INFO, ''Running '' @ quoted alg @ '' hash check...''),
                     (ERROR, ''Archive does not have matching '' @ quoted alg @
                             '' hash '' @ quoted expected)]\<rparr>))"
    using archive line alg by (intro check_hash_lines_available) simp_all
  finally show "check_source_archive h s =
           (if hexdigest data = expected
            then check_hash_lines h post
                   (s\<lparr>logger := logger s @ concat (map (passing_log h) pre) @
                      [(INFO, ''Running '' @ quoted alg @ '' hash check...''),
                       (DEBUG, quoted alg @ '' hash matches'')]\<rparr>)
            else (Inr (), s\<lparr>logger := logger s @ concat (map (passing_log h) pre) @
                    [(INFO, ''Running '' @ quoted alg @ '' hash check...''),
                     (ERROR, ''Archive does not have matching '' @ quoted alg @
                             '' hash '' @ quoted expected)]\<rparr>))"
    by simp
qed

theorem digest_is_compared_by_equality_witness:
  "read_file (fs (source_state upper_case_manifest ''''))
     (sourcearchive_hashes (source_state upper_case_manifest '''')) = Inr upper_case_manifest \<and>
   py_split [LF] (universal_newlines upper_case_manifest) =
     [''sha1  00''] @
     ''md5  0CC175B9C0F1B6A831C399E269772661  chromium-1.tar.xz'' # [''''] \<and>
   read_file (fs (source_state upper_case_manifest ''''))
     (sourcearchive (source_state upper_case_manifest '''')) = Inr ''a'' \<and>
   line_passes example_hashlib ''a'' ''sha1  00'' \<and>
   py_split ''  '' ''md5  0CC175B9C0F1B6A831C399E269772661  chromium-1.tar.xz'' =
     ''md5'' # ''0CC175B9C0F1B6A831C399E269772661'' # [''chromium-1.tar.xz''] \<and>
   example_hashlib ''md5'' = Some (the (example_hashlib ''md5'')) \<and>
   the (example_hashlib ''md5'') ''a'' \<noteq> ''0CC175B9C0F1B6A831C399E269772661'' \<and>
   check_source_archive example_hashlib (source_state upper_case_manifest '''') =
     (Inr (), (source_state upper_case_manifest '''')
        \<lparr>logger := logger (source_state upper_case_manifest '''') @
           concat (map (passing_log example_hashlib) [''sha1  00'']) @
           [(INFO, ''Running '' @ quoted ''md5'' @ '' hash check...''),
            (ERROR, ''Archive does not have matching '' @ quoted ''md5'' @
                    '' hash '' @ quoted ''0CC175B9C0F1B6A831C399E269772661'')]\<rparr>)"
proof -
  let ?s = "source_state upper_case_manifest ''''"
  have manifest: "read_file (fs ?s) (sourcearchive_hashes ?s) = Inr upper_case_manifest"
    by code_simp
  have lines: "py_split [LF] (universal_newlines upper_case_manifest) =
      [''sha1  00''] @ ''md5  0CC175B9C0F1B6A831C399E269772661  chromium-1.tar.xz'' # ['''']"
    by code_simp
  have archive: "read_file (fs ?s) (sourcearchive ?s) = Inr ''a''"
    by code_simp
  have p: "line_passes example_hashlib ''a'' ''sha1  00''"
    by code_simp
  then have pre: "\<forall>l \<in> set [''sha1  00'']. line_passes example_hashlib ''a'' l"
    by simp
  have line: "py_split ''  '' ''md5  0CC175B9C0F1B6A831C399E269772661  chromium-1.tar.xz'' =
      ''md5'' # ''0CC175B9C0F1B6A831C399E269772661'' # [''chromium-1.tar.xz'']"
    by code_simp
  have alg: "example_hashlib ''md5'' = Some (the (example_hashlib ''md5''))"
    by (simp add: example_hashlib_def)
  have differs: "the (example_hashlib ''md5'') ''a'' \<noteq> ''0CC175B9C0F1B6A831C399E269772661''"
    by (simp add: example_hashlib_def)
  note concl = digest_is_compared_by_equality[OF manifest lines archive pre line alg,
      THEN conjunct2, unfolded if_not_P[OF differs]]
  show ?thesis
    by (intro conjI manifest lines archive p line alg differs concl)
qed

text \<open>
  C7 as stated fails. The expected digest is the computed one in capital letters; the
  verifier logs the mismatch error, where for the computed digest itself it logs that
  the hash matches.
\<close>

theorem letter_case_counterexample:
  "map ascii_lower ''0CC175B9C0F1B6A831C399E269772661'' = the (example_hashlib ''md5'') ''a'' \<and>
   logger (snd (check_source_archive example_hashlib
          (source_state ''md5  0CC175B9C0F1B6A831C399E269772661'' ''''))) =
     [(INFO, ''Running '' @ quoted ''md5'' @ '' hash check...''),
      (ERROR, ''Archive does not have matching '' @ quoted ''md5'' @ '' hash '' @
              quoted ''0CC175B9C0F1B6A831C399E269772661'')] \<and>
   logger (snd (check_source_archive example_hashlib
          (source_state ''md5  0cc175b9c0f1b6a831c399e269772661'' ''''))) =
     [(INFO, ''Running '' @ quoted ''md5'' @ '' hash check...''),
      (DEBUG, quoted ''md5'' @ '' hash matches'')]"
  by code_simp

section \<open>Properties of the domain substitution engine\<close>

lemma apply_rules_total:
  assumes "\<forall>(rx, repl) \<in> set rules. \<forall>c. subn re rx repl c = Inr (t rx repl c)"
  shows "apply_rules re rules c k = Inr (content_after t rules c, k + total_subs t rules c)"
  using assms
proof (induction rules arbitrary: c k)
  case Nil
  then show ?case by simp
next
  case (Cons r rules)
  obtain rx repl where r: "r = (rx, repl)" by (cases r)
  from Cons.prems r have step: "subn re rx repl c = Inr (t rx repl c)" by simp
  from Cons.prems have rest: "\<forall>(rx, repl) \<in> set rules. \<forall>c. subn re rx repl c = Inr (t rx repl c)"
    by simp
  obtain c' n where t: "t rx repl c = (c', n)" by (cases "t rx repl c")
  show ?case
    using step t r Cons.IH[OF rest, of c' "k + n"] by simp
qed

lemma read_file_regular: "map_of f p = Some (File c) \<Longrightarrow> read_file f p = Inr c"
  by (simp add: read_file_def)

lemma domain_substitute_step:
  assumes engine: "\<forall>(rx, repl) \<in> set rules. \<forall>c. subn re rx repl c = Inr (t rx repl c)"
    and regular: "map_of (fs s) p = Some (File c)"
  shows "domain_substitute re rules (p # rest) lw s =
           domain_substitute re rules rest lw (substitute_file t rules lw s p)"
  using apply_rules_total[OF engine, of c 0] read_file_regular[OF regular] regular
  by (simp add: substitute_file_def)

lemma substitute_file_keeps_files:
  assumes "map_of (fs s) q = Some (File c)"
  shows "\<exists>c'. map_of (fs (substitute_file t rules lw s p)) q = Some (File c')"
  using assms
  by (auto simp: substitute_file_def update_conv' split: option.splits node.splits)

lemma substitute_file_log:
  "logger (substitute_file t rules lw s p) = logger s \<or>
   lw \<and> logger (substitute_file t rules lw s p) = logger s @ [no_match_warning p]"
  by (auto simp: substitute_file_def no_match_warning_def log_msg_def
      split: option.splits node.splits)

lemma substitute_files_log:
  "\<exists>ws. logger (substitute_files t rules lw s paths) = logger s @ ws \<and>
        set ws \<subseteq> no_match_warning ` set paths \<and> (lw \<or> ws = [])"
proof (induction paths arbitrary: s)
  case Nil
  then show ?case by (simp add: substitute_files_def)
next
  case (Cons p paths)
  let ?s' = "substitute_file t rules lw s p"
  from Cons.IH[of ?s'] obtain ws
    where ws: "logger (substitute_files t rules lw ?s' paths) = logger ?s' @ ws"
      "set ws \<subseteq> no_match_warning ` set paths" "lw \<or> ws = []"
    by blast
  have unfold: "substitute_files t rules lw s (p # paths) = substitute_files t rules lw ?s' paths"
    by (simp add: substitute_files_def)
  from substitute_file_log[of t rules lw s p] show ?case
  proof
    assume "logger ?s' = logger s"
    with ws unfold show ?thesis by auto
  next
    assume w: "lw \<and> logger ?s' = logger s @ [no_match_warning p]"
    from w have lw: lw ..
    from w have lg: "logger ?s' = logger s @ [no_match_warning p]" ..
    from ws(1) unfold lg
    have "logger (substitute_files t rules lw s (p # paths)) = logger s @ (no_match_warning p # ws)"
      by simp
    moreover have "set (no_match_warning p # ws) \<subseteq> no_match_warning ` set (p # paths)"
      using ws(2) by auto
    ultimately show ?thesis
      using lw by blast
  qed
qed

lemma substitution_run:
  assumes engine: "\<forall>(rx, repl) \<in> set rules. \<forall>c. subn re rx repl c = Inr (t rx repl c)"
    and files: "\<forall>p \<in> set paths. \<exists>c. map_of (fs s) p = Some (File c)"
  shows "domain_substitute re rules paths log_warnings s =
           (Inr (), substitute_files t rules log_warnings s paths)"
  using files
proof (induction paths arbitrary: s)
  case Nil
  then show ?case by (simp add: substitute_files_def)
next
  case (Cons p paths)
  from Cons.prems obtain c where c: "map_of (fs s) p = Some (File c)" by auto
  let ?s' = "substitute_file t rules log_warnings s p"
  have "\<forall>q \<in> set paths. \<exists>c. map_of (fs ?s') q = Some (File c)"
    using Cons.prems substitute_file_keeps_files[of s _ _ t rules log_warnings p] by fastforce
  from Cons.IH[OF this] domain_substitute_step[OF engine c]
  show ?case by (simp add: substitute_files_def)
qed

text \<open>
  C4 (as amended). For an engine that does not fail on the rules (its \<^verbatim>\<open>subn\<close> is
  the function \<open>t\<close>) and target files that exist as regular files, the engine returns
  normally and leaves the state that the specification describes: file by file, the
  content is read, the rules are applied in list order, each to the output of the one
  before, and their substitution counts are summed; with a positive sum the file
  holds the transformed bytes, with the sum zero the file system is left as it is
  and, when warnings are enabled, the no-match warning for that file is logged. The
  sum serves this test only and is not reported: the call returns no value, and the
  only records that it adds to the log are no-match warnings of target files.
\<close>

theorem substitution_overwrites_or_warns:
  assumes engine: "\<forall>(rx, repl) \<in> set rules. \<forall>c. subn re rx repl c = Inr (t rx repl c)"
    and files: "\<forall>p \<in> set paths. \<exists>c. map_of (fs s) p = Some (File c)"
  shows "domain_substitute re rules paths log_warnings s =
           (Inr (), substitute_files t rules log_warnings s paths) \<and>
         (\<exists>ws. logger (snd (domain_substitute re rules paths log_warnings s)) = logger s @ ws \<and>
               set ws \<subseteq> no_match_warning ` set paths \<and> (log_warnings \<or> ws = []))"
  using substitution_run[OF engine files, of log_warnings]
    substitute_files_log[of t rules log_warnings s paths]
  by simp

theorem substitution_overwrites_or_warns_witness:
  "domain_substitute literal_re [(''foo'', ''bar'')] [[''f1''], [''f2'']] True
       (patch_state None None two_files) =
     (Inr (), (patch_state None None two_files)
        \<lparr>fs := [([''f1''], File ''a bar b''), ([''f2''], File ''baz'')],
         logger := [(WARNING, ''File f2 has no matches'')]\<rparr>)"
proof -
  let ?s = "patch_state None None two_files"
  have engine: "\<forall>(rx, repl) \<in> set [(''foo'', ''bar'')].
      \<forall>c. subn literal_re rx repl c = Inr (literal_subn rx repl c)"
    by (simp add: literal_re_def)
  have files: "\<forall>p \<in> set [[''f1''], [''f2'']]. \<exists>c. map_of (fs ?s) p = Some (File c)"
    by (simp add: patch_state_def two_files_def)
  have spec: "substitute_files literal_subn [(''foo'', ''bar'')] True ?s [[''f1''], [''f2'']] =
      ?s\<lparr>fs := [([''f1''], File ''a bar b''), ([''f2''], File ''baz'')],
         logger := [(WARNING, ''File f2 has no matches'')]\<rparr>"
    by code_simp
  note run = substitution_overwrites_or_warns[OF engine files, of True, THEN conjunct1]
  show ?thesis
    unfolding run spec by (rule refl)
qed

text \<open>
  C4 as stated fails: no substitution count is reported. With the rule \<^verbatim>\<open>foo#bar\<close>
  the file that holds \<^verbatim>\<open>foo\<close> once ends up holding \<^verbatim>\<open>bar\<close>, and the loop counts one
  substitution, but the call returns no value and logs nothing; for a file that holds
  \<^verbatim>\<open>foo\<close> three times the loop counts three, and the call returns and logs the same.
\<close>

theorem substitution_count_not_reported_counterexample:
  "apply_rules literal_re [(''foo'', ''bar'')] ''a foo b'' 0 = Inr (''a bar b'', 1) \<and>
   domain_substitute literal_re [(''foo'', ''bar'')] [[''f1'']] True
       (patch_state None None [([''f1''], File ''a foo b'')]) =
     (Inr (), patch_state None None [([''f1''], File ''a bar b'')]) \<and>
   logger (patch_state None None [([''f1''], File ''a bar b'')]) = [] \<and>
   apply_rules literal_re [(''foo'', ''bar'')] ''foo foo foo'' 0 = Inr (''bar bar bar'', 3) \<and>
   fst (domain_substitute literal_re [(''foo'', ''bar'')] [[''f1'']] True
       (patch_state None None [([''f1''], File ''foo foo foo'')])) = Inr () \<and>
   logger (snd (domain_substitute literal_re [(''foo'', ''bar'')] [[''f1'']] True
       (patch_state None None [([''f1''], File ''foo foo foo'')]))) = []"
  by code_simp




section \<open>Properties of the patch assembler\<close>

subsection \<open>Copying and unlinking\<close>

lemma joinpath_PATCHES [simp]: "joinpath a PATCHES = a @ PATCHES"
  by (simp add: joinpath_def is_absolute_def PATCHES_def)

lemma joinpath_PATCH_ORDER [simp]: "joinpath a PATCH_ORDER = a @ PATCH_ORDER"
  by (simp add: joinpath_def is_absolute_def PATCH_ORDER_def)

lemma copy_fold_other_key:
  assumes "\<forall>(p, n) \<in> set xs. take (length src) p = src \<longrightarrow> dst @ drop (length src) p \<noteq> q"
  shows "map_of (fold (\<lambda>(p, n) acc.
                    if take (length src) p = src
                    then AList.update (dst @ drop (length src) p) n acc else acc) xs acc) q =
         map_of acc q"
  using assms
proof (induction xs arbitrary: acc)
  case Nil
  then show ?case by simp
next
  case (Cons x xs)
  obtain p n where x: "x = (p, n)" by (cases x)
  from Cons.prems have rest:
    "\<forall>(p, n) \<in> set xs. take (length src) p = src \<longrightarrow> dst @ drop (length src) p \<noteq> q"
    by simp
  from Cons.prems x have here: "take (length src) p = src \<Longrightarrow> dst @ drop (length src) p \<noteq> q"
    by simp
  show ?case
    using Cons.IH[OF rest] here x
    by (cases "take (length src) p = src") (auto simp: update_conv')
qed

lemma copy_tree_outside:
  assumes "copy_tree src dst f = (r, f')" and "take (length dst) q \<noteq> dst"
  shows "map_of f' q = map_of f q"
proof (cases "map_of f src = Some Dir")
  case False
  with assms show ?thesis by (simp add: copy_tree_def)
next
  case True
  have "\<forall>(p, n) \<in> set f. take (length src) p = src \<longrightarrow> dst @ drop (length src) p \<noteq> q"
    using assms(2) by auto
  from copy_fold_other_key[OF this] True assms(1) show ?thesis
    by (auto simp: copy_tree_def)
qed

lemma copy_tree_absent_source:
  assumes "copy_tree src dst f = (r, f')" and "map_of f (src @ rel) = None"
  shows "map_of f' (dst @ rel) = map_of f (dst @ rel)"
proof (cases "map_of f src = Some Dir")
  case False
  with assms show ?thesis by (simp add: copy_tree_def)
next
  case True
  have "dst @ drop (length src) p \<noteq> dst @ rel"
    if pn: "(p, n) \<in> set f" and t: "take (length src) p = src" for p n
  proof
    assume d: "dst @ drop (length src) p = dst @ rel"
    from t d have "p = src @ rel" by (metis append_take_drop_id same_append_eq)
    with pn have "src @ rel \<in> fst ` set f" by force
    with assms(2) show False by (simp add: map_of_eq_None_iff)
  qed
  then have "\<forall>(p, n) \<in> set f. take (length src) p = src \<longrightarrow>
          dst @ drop (length src) p \<noteq> dst @ rel"
    by blast
  from copy_fold_other_key[OF this] True assms(1) show ?thesis
    by (auto simp: copy_tree_def)
qed

lemma unlink_done: "unlink p f = (Inr u, f') \<Longrightarrow> map_of f' p = None"
  by (auto simp: unlink_def delete_conv' split: option.splits node.splits)

lemma unlink_other: "unlink p f = (r, f') \<Longrightarrow> q \<noteq> p \<Longrightarrow> map_of f' q = map_of f q"
  by (auto simp: unlink_def delete_conv' split: option.splits node.splits)

lemma unlink_absent: "map_of f p = None \<Longrightarrow> unlink p f = (Inl FileNotFoundError, f)"
  by (simp add: unlink_def)

lemma assembly_steps_fail:
  assumes absent: "map_of f0 (pp @ PATCH_ORDER) = None"
    and apart: "take (length od) (pp @ PATCH_ORDER) \<noteq> od"
  shows "\<exists>e f'. then_step (copy_tree cp od)
                  (then_step (unlink (od @ PATCH_ORDER))
                  (then_step (copy_tree pp od)
                  (then_step (unlink (od @ PATCH_ORDER)) (write_file (od @ PATCH_ORDER) c))))
                  f0 = (Inl e, f')"
proof -
  obtain r1 f1 where A: "copy_tree cp od f0 = (r1, f1)" by (cases "copy_tree cp od f0")
  obtain r2 f2 where B: "unlink (od @ PATCH_ORDER) f1 = (r2, f2)"
    by (cases "unlink (od @ PATCH_ORDER) f1")
  obtain r3 f3 where C: "copy_tree pp od f2 = (r3, f3)" by (cases "copy_tree pp od f2")
  show ?thesis
  proof (cases r1)
    case (Inl e)
    with A show ?thesis by (simp add: then_step_def)
  next
    case r1: (Inr u1)
    show ?thesis
    proof (cases r2)
      case (Inl e)
      with A B r1 show ?thesis by (simp add: then_step_def)
    next
      case r2: (Inr u2)
      show ?thesis
      proof (cases r3)
        case (Inl e)
        with A B C r1 r2 show ?thesis by (simp add: then_step_def)
      next
        case r3: (Inr u3)
        have "map_of f1 (pp @ PATCH_ORDER) = None"
          using copy_tree_outside[OF A apart] absent by simp
        then have "map_of f2 (pp @ PATCH_ORDER) = None"
          using B unlink_other[OF B, of "pp @ PATCH_ORDER"] unlink_done[of "od @ PATCH_ORDER" f1 u2 f2] r2
          by (cases "pp @ PATCH_ORDER = od @ PATCH_ORDER") auto
        then have "map_of f3 (od @ PATCH_ORDER) = map_of f2 (od @ PATCH_ORDER)"
          by (rule copy_tree_absent_source[OF C])
        also have "\<dots> = None" using B r2 by (auto dest: unlink_done)
        finally have "unlink (od @ PATCH_ORDER) f3 = (Inl FileNotFoundError, f3)"
          by (rule unlink_absent)
        with A B C r1 r2 r3 show ?thesis by (simp add: then_step_def)
      qed
    qed
  qed
qed

text \<open>
  C5, on the inputs where the code fails. When there is no platform patch-order file,
  because \<^verbatim>\<open>PLATFORM_RESOURCES\<close> is \<^verbatim>\<open>None\<close> or because the platform's patch directory
  has none (the output directory not lying above it), \<^verbatim>\<open>_generate_patches\<close> raises an
  exception: it does not return with an order file that holds the common order alone.
\<close>

theorem no_platform_order_raises:
  assumes "PLATFORM_RESOURCES s = None \<or>
           (\<exists>pr. PLATFORM_RESOURCES s = Some pr \<and>
                 map_of (fs s) (joinpath (joinpath pr PATCHES) PATCH_ORDER) = None \<and>
                 take (length output_dir) (joinpath (joinpath pr PATCHES) PATCH_ORDER) \<noteq>
                   output_dir)"
  shows "\<exists>e. fst (generate_patches re output_dir run_domain_substitution s) = Inl e"
proof -
  have "\<exists>e s'. assemble_patches output_dir s = (Inl e, s')"
    using assms
  proof
    assume "PLATFORM_RESOURCES s = None"
    then show ?thesis by (simp add: assemble_patches_def)
  next
    assume "\<exists>pr. PLATFORM_RESOURCES s = Some pr \<and>
                 map_of (fs s) (joinpath (joinpath pr PATCHES) PATCH_ORDER) = None \<and>
                 take (length output_dir) (joinpath (joinpath pr PATCHES) PATCH_ORDER) \<noteq>
                   output_dir"
    then obtain pr where pr: "PLATFORM_RESOURCES s = Some pr"
      and absent: "map_of (fs s) ((pr @ PATCHES) @ PATCH_ORDER) = None"
      and apart: "take (length output_dir) ((pr @ PATCHES) @ PATCH_ORDER) \<noteq> output_dir"
      by auto
    show ?thesis
    proof (cases "read_file (fs s) ((COMMON_RESOURCES @ PATCHES) @ PATCH_ORDER)")
      case (Inl e)
      with pr show ?thesis by (simp add: assemble_patches_def)
    next
      case (Inr c)
      from assembly_steps_fail[OF absent apart, of "COMMON_RESOURCES @ PATCHES"
          "universal_newlines c"]
      obtain e f' where "then_step (copy_tree (COMMON_RESOURCES @ PATCHES) output_dir)
                  (then_step (unlink (output_dir @ PATCH_ORDER))
                  (then_step (copy_tree (pr @ PATCHES) output_dir)
                  (then_step (unlink (output_dir @ PATCH_ORDER))
                     (write_file (output_dir @ PATCH_ORDER) (universal_newlines c)))))
                  (fs s) = (Inl e, f')"
        by blast
      with pr Inr absent show ?thesis
        by (simp add: assemble_patches_def exists_def)
    qed
  qed
  then show ?thesis
    by (auto simp: generate_patches_def)
qed
theorem no_platform_order_raises_witness:
  "(PLATFORM_RESOURCES (patch_state None None common_files) = None \<or>
    (\<exists>pr. PLATFORM_RESOURCES (patch_state None None common_files) = Some pr \<and>
          map_of (fs (patch_state None None common_files))
            (joinpath (joinpath pr PATCHES) PATCH_ORDER) = None \<and>
          take (length [''out'']) (joinpath (joinpath pr PATCHES) PATCH_ORDER) \<noteq> [''out''])) \<and>
   (\<exists>e. fst (generate_patches literal_re [''out''] False
               (patch_state None None common_files)) = Inl e)"
proof -
  have h: "PLATFORM_RESOURCES (patch_state None None common_files) = None \<or>
    (\<exists>pr. PLATFORM_RESOURCES (patch_state None None common_files) = Some pr \<and>
          map_of (fs (patch_state None None common_files))
            (joinpath (joinpath pr PATCHES) PATCH_ORDER) = None \<and>
          take (length [''out'']) (joinpath (joinpath pr PATCHES) PATCH_ORDER) \<noteq> [''out''])"
    by (simp add: patch_state_def)
  from no_platform_order_raises[OF h, of literal_re False] h show ?thesis
    by (intro conjI)
qed

text \<open>
  The two ways to have no platform override on the example files: without platform
  resources the call raises \<^verbatim>\<open>TypeError\<close> at line 198 and changes nothing; with a
  platform patch directory that has no order file it raises \<^verbatim>\<open>FileNotFoundError\<close> at
  the second \<^verbatim>\<open>unlink\<close>, line 210, and no order file is left in the output directory.
\<close>

lemma no_platform_resources_example:
  "generate_patches literal_re [''out''] False (patch_state None None common_files) =
     (Inl TypeError, patch_state None None common_files)"
  by code_simp

lemma no_platform_order_file_example:
  "fst (generate_patches literal_re [''out''] False
          (patch_state (Some [''resources'', ''linux'']) None
             (common_files @ platform_files_no_order))) = Inl FileNotFoundError \<and>
   map_of (fs (snd (generate_patches literal_re [''out''] False
          (patch_state (Some [''resources'', ''linux'']) None
             (common_files @ platform_files_no_order))))) [''out'', ''patch_order''] = None"
  by code_simp

text \<open>
  With a platform override the call returns, and the output directory holds one
  order file, the common order followed by the platform order: two lines and one
  line give three.
\<close>

lemma platform_override_example:
  "fst (generate_patches literal_re [''out''] False
          (patch_state (Some [''resources'', ''linux'']) None
             (common_files @ platform_files))) = Inr () \<and>
   map_of (fs (snd (generate_patches literal_re [''out''] False
          (patch_state (Some [''resources'', ''linux'']) None
             (common_files @ platform_files))))) [''out'', ''patch_order''] =
     Some (File (''a.patch'' @ [LF] @ ''b.patch'' @ [LF] @ ''c.patch'' @ [LF])) \<and>
   splitlines False (''a.patch'' @ [LF] @ ''b.patch'' @ [LF] @ ''c.patch'' @ [LF]) =
     [''a.patch'', ''b.patch'', ''c.patch'']"
  by code_simp

text \<open>
  The two order files are joined as strings. When the common one does not end with a
  line break, its last line and the first platform line become one line: two
  lines and one line give two.
\<close>

lemma order_files_joined_as_strings_example:
  "splitlines False (''a.patch'' @ [LF] @ ''b.patch'') = [''a.patch'', ''b.patch''] \<and>
   splitlines False (''c.patch'' @ [LF]) = [''c.patch''] \<and>
   map_of (fs (snd (generate_patches literal_re [''out''] False
          (patch_state (Some [''resources'', ''linux'']) None
             (([''resources'', ''common'', ''patches'', ''patch_order''],
               File (''a.patch'' @ [LF] @ ''b.patch'')) # common_files @ platform_files)))))
     [''out'', ''patch_order''] =
     Some (File (''a.patch'' @ [LF] @ ''b.patchc.patch'' @ [LF])) \<and>
   splitlines False (''a.patch'' @ [LF] @ ''b.patchc.patch'' @ [LF]) =
     [''a.patch'', ''b.patchc.patch'']"
  by code_simp

subsection \<open>The order file when a platform override exists\<close>

lemma then_step_done:
  assumes "then_step a b f = (Inr u, f')"
  shows "\<exists>u1 f1. a f = (Inr u1, f1) \<and> b f1 = (Inr u, f')"
  using assms by (auto simp: then_step_def split: prod.splits sum.splits)

lemma write_file_done: "write_file p c f = (Inr u, f') \<Longrightarrow> map_of f' p = Some (File c)"
  by (auto simp: write_file_def update_conv' split: option.splits node.splits)

text \<open>
  When the platform order file exists and the call returns normally, the one entry
  \<^verbatim>\<open>patch_order\<close> of the output directory holds the common order followed by the
  platform order, joined as strings, so that it has as many line breaks as the two
  together.
\<close>

lemma order_file_with_platform_override:
  assumes pr: "PLATFORM_RESOURCES s = Some pr"
    and common: "read_file (fs s) (joinpath (joinpath COMMON_RESOURCES PATCHES) PATCH_ORDER) = Inr c"
    and platform: "read_file (fs s) (joinpath (joinpath pr PATCHES) PATCH_ORDER) = Inr c2"
    and returns: "generate_patches re output_dir False s = (Inr u, s')"
  shows "map_of (fs s') (joinpath output_dir PATCH_ORDER) =
           Some (File (universal_newlines c @ universal_newlines c2)) \<and>
         count_list (universal_newlines c @ universal_newlines c2) LF =
           count_list (universal_newlines c) LF + count_list (universal_newlines c2) LF"
proof -
  let ?new = "universal_newlines c @ universal_newlines c2"
  let ?s1 = "log_msg DEBUG ''Using platform patches'' s"
  let ?chain = "then_step (copy_tree (COMMON_RESOURCES @ PATCHES) output_dir)
                  (then_step (unlink (output_dir @ PATCH_ORDER))
                  (then_step (copy_tree (pr @ PATCHES) output_dir)
                  (then_step (unlink (output_dir @ PATCH_ORDER))
                     (write_file (output_dir @ PATCH_ORDER) ?new))))"
  from platform have ex: "exists (fs s) ((pr @ PATCHES) @ PATCH_ORDER)"
    by (auto simp: exists_def read_file_def split: option.splits)
  obtain r f where ch: "?chain (fs s) = (r, f)" by (cases "?chain (fs s)")
  have asm: "assemble_patches output_dir s = (r, ?s1\<lparr>fs := f\<rparr>)"
    using pr common platform ex ch by (simp add: assemble_patches_def Let_def)
  with returns have r: "r = Inr u" and s': "s' = ?s1\<lparr>fs := f\<rparr>"
    by (auto simp: generate_patches_def split: sum.splits)
  from ch r obtain u1 f1 where "(then_step (unlink (output_dir @ PATCH_ORDER))
                  (then_step (copy_tree (pr @ PATCHES) output_dir)
                  (then_step (unlink (output_dir @ PATCH_ORDER))
                     (write_file (output_dir @ PATCH_ORDER) ?new)))) f1 = (Inr u, f)"
    using then_step_done by blast
  then obtain u2 f2 where "(then_step (copy_tree (pr @ PATCHES) output_dir)
                  (then_step (unlink (output_dir @ PATCH_ORDER))
                     (write_file (output_dir @ PATCH_ORDER) ?new))) f2 = (Inr u, f)"
    using then_step_done by blast
  then obtain u3 f3 where "(then_step (unlink (output_dir @ PATCH_ORDER))
                     (write_file (output_dir @ PATCH_ORDER) ?new)) f3 = (Inr u, f)"
    using then_step_done by blast
  then obtain u4 f4 where "write_file (output_dir @ PATCH_ORDER) ?new f4 = (Inr u, f)"
    using then_step_done by blast
  then have "map_of f (output_dir @ PATCH_ORDER) = Some (File ?new)"
    by (rule write_file_done)
  with s' show ?thesis by simp
qed

subsection \<open>Substitution over the assembled patches\<close>

lemma read_list_resource_keeps:
  "fs (snd (read_list_resource s n b)) = fs s"
  "sandbox_patches (snd (read_list_resource s n b)) = sandbox_patches s"
  by (auto simp: read_list_resource_def Let_def split: sum.splits option.splits)

lemma get_parsed_domain_regexes_keeps:
  "fs (snd (get_parsed_domain_regexes re s)) = fs s"
  "sandbox_patches (snd (get_parsed_domain_regexes re s)) = sandbox_patches s"
proof -
  let ?s0 = "s\<lparr>domain_regex_cache := Some []\<rparr>"
  obtain r s1 where rd: "read_list_resource ?s0 DOMAIN_REGEX_LIST True = (r, s1)"
    by (cases "read_list_resource ?s0 DOMAIN_REGEX_LIST True")
  from read_list_resource_keeps[of ?s0 DOMAIN_REGEX_LIST True] rd
  have k: "fs s1 = fs s" "sandbox_patches s1 = sandbox_patches s" by simp_all
  show "fs (snd (get_parsed_domain_regexes re s)) = fs s"
    using rd k
    by (auto simp: get_parsed_domain_regexes_def Let_def split: option.splits sum.splits prod.splits)
  show "sandbox_patches (snd (get_parsed_domain_regexes re s)) = sandbox_patches s"
    using rd k
    by (auto simp: get_parsed_domain_regexes_def Let_def split: option.splits sum.splits prod.splits)
qed

lemma assemble_patches_keeps:
  "sandbox_patches (snd (assemble_patches output_dir s)) = sandbox_patches s"
  by (auto simp: assemble_patches_def Let_def split: option.splits sum.splits prod.splits)

text \<open>
  C9, on the inputs where the code fails. The substitution of line 216 runs over
  \<^verbatim>\<open>self.sandbox_patches\<close>, not over the output directory. While that attribute does
  not exist, as \<^verbatim>\<open>__init__\<close> leaves it, a call with domain substitution enabled raises
  an exception and leaves the files that the same call without domain substitution
  leaves: no patch file has been substituted.
\<close>

theorem substitution_over_patches_raises:
  assumes "sandbox_patches s = None"
  shows "(\<exists>e. fst (generate_patches re output_dir True s) = Inl e) \<and>
         fs (snd (generate_patches re output_dir True s)) =
           fs (snd (generate_patches re output_dir False s))"
proof -
  obtain r s2 where a: "assemble_patches output_dir s = (r, s2)"
    by (cases "assemble_patches output_dir s")
  show ?thesis
  proof (cases r)
    case (Inl e)
    with a show ?thesis by (simp add: generate_patches_def)
  next
    case (Inr u)
    let ?s2' = "log_msg DEBUG ''Running domain substitution over patches...'' s2"
    obtain r3 s3 where g: "get_parsed_domain_regexes re ?s2' = (r3, s3)"
      by (cases "get_parsed_domain_regexes re ?s2'")
    from assemble_patches_keeps[of output_dir s] a assms
    have "sandbox_patches s2 = None" by simp
    with get_parsed_domain_regexes_keeps[of re ?s2'] g
    have k: "fs s3 = fs s2" "sandbox_patches s3 = None" by simp_all
    show ?thesis
      using a Inr g k by (cases r3) (simp_all add: generate_patches_def)
  qed
qed

theorem substitution_over_patches_raises_witness:
  "sandbox_patches (patch_state (Some [''resources'', ''linux'']) None
       (common_files @ platform_files)) = None \<and>
   (\<exists>e. fst (generate_patches literal_re [''out''] True
               (patch_state (Some [''resources'', ''linux'']) None
                  (common_files @ platform_files))) = Inl e) \<and>
   fs (snd (generate_patches literal_re [''out''] True
              (patch_state (Some [''resources'', ''linux'']) None
                 (common_files @ platform_files)))) =
     fs (snd (generate_patches literal_re [''out''] False
                (patch_state (Some [''resources'', ''linux'']) None
                   (common_files @ platform_files))))"
proof -
  have h: "sandbox_patches (patch_state (Some [''resources'', ''linux'']) None
       (common_files @ platform_files)) = None"
    by (simp add: patch_state_def)
  from substitution_over_patches_raises[OF h, of literal_re "[''out'']"] h
  show ?thesis by (intro conjI) blast+
qed

text \<open>
  On the example files: without the attribute the call raises \<^verbatim>\<open>AttributeError\<close> and
  the patch \<^verbatim>\<open>a.patch\<close> of the output directory still holds \<^verbatim>\<open>foo\<close>; with the
  attribute naming another directory the call returns and the patch still holds
  \<^verbatim>\<open>foo\<close>; with the attribute naming the output directory the patch is rewritten, and
  no warning is logged for \<^verbatim>\<open>b.patch\<close>, which has no match.
\<close>

lemma sandbox_patches_examples:
  "fst (generate_patches literal_re [''out''] True
          (patch_state (Some [''resources'', ''linux'']) None
             (common_files @ platform_files))) = Inl AttributeError \<and>
   map_of (fs (snd (generate_patches literal_re [''out''] True
          (patch_state (Some [''resources'', ''linux'']) None
             (common_files @ platform_files))))) [''out'', ''a.patch''] =
     Some (File ''a foo b'') \<and>
   fst (generate_patches literal_re [''out''] True
          (patch_state (Some [''resources'', ''linux'']) (Some [''elsewhere''])
             (common_files @ platform_files))) = Inr () \<and>
   map_of (fs (snd (generate_patches literal_re [''out''] True
          (patch_state (Some [''resources'', ''linux'']) (Some [''elsewhere''])
             (common_files @ platform_files))))) [''out'', ''a.patch''] =
     Some (File ''a foo b'') \<and>
   fst (generate_patches literal_re [''out''] True
          (patch_state (Some [''resources'', ''linux'']) (Some [''out''])
             (common_files @ platform_files))) = Inr () \<and>
   map_of (fs (snd (generate_patches literal_re [''out''] True
          (patch_state (Some [''resources'', ''linux'']) (Some [''out''])
             (common_files @ platform_files))))) [''out'', ''a.patch''] =
     Some (File ''a bar b'') \<and>
   logger (snd (generate_patches literal_re [''out''] True
          (patch_state (Some [''resources'', ''linux'']) (Some [''out''])
             (common_files @ platform_files)))) =
     [(DEBUG, ''Using platform patches''),
      (DEBUG, ''Running domain substitution over patches...'')]"
  by code_simp

lemma domain_substitute_untouched:
  assumes "p \<notin> set paths"
  shows "map_of (fs (snd (domain_substitute re rules paths lw s))) p = map_of (fs s) p"
  using assms
proof (induction paths arbitrary: s)
  case Nil
  then show ?case by simp
next
  case (Cons q paths)
  then have p: "p \<notin> set paths" and q: "q \<noteq> p" by auto
  show ?case
  proof (cases "read_file (fs s) q")
    case (Inl e)
    then show ?thesis by simp
  next
    case c: (Inr c)
    show ?thesis
    proof (cases "apply_rules re rules c 0")
      case (Inl e)
      with c show ?thesis by simp
    next
      case (Inr r)
      obtain c' n where r: "r = (c', n)" by (cases r)
      show ?thesis
        using c Inr r q Cons.IH[OF p, of "s\<lparr>fs := AList.update q (File c') (fs s)\<rparr>"]
          Cons.IH[OF p, of "log_msg WARNING (''File '' @ str_of_path q @ '' has no matches'') s"]
          Cons.IH[OF p, of s]
        by (cases lw) (simp_all add: update_conv')
    qed
  qed
qed

lemma rglob_patch_below: "q \<in> set (rglob_patch f d) \<Longrightarrow> take (length d) q = d"
  by (auto simp: rglob_patch_def split: if_splits)

text \<open>
  The substitution of line 216 changes files below \<^verbatim>\<open>self.sandbox_patches\<close> only,
  whatever the output directory is: an entry that is not below it is after a call
  with domain substitution what it is after a call without.
\<close>

lemma substitution_touches_only_sandbox_patches:
  assumes "sandbox_patches s = Some sp" and "take (length sp) p \<noteq> sp"
  shows "map_of (fs (snd (generate_patches re output_dir True s))) p =
           map_of (fs (snd (generate_patches re output_dir False s))) p"
proof -
  obtain r s2 where a: "assemble_patches output_dir s = (r, s2)"
    by (cases "assemble_patches output_dir s")
  show ?thesis
  proof (cases r)
    case (Inl e)
    with a show ?thesis by (simp add: generate_patches_def)
  next
    case (Inr u)
    let ?s2' = "log_msg DEBUG ''Running domain substitution over patches...'' s2"
    obtain r3 s3 where g: "get_parsed_domain_regexes re ?s2' = (r3, s3)"
      by (cases "get_parsed_domain_regexes re ?s2'")
    from assemble_patches_keeps[of output_dir s] a assms(1)
    have "sandbox_patches s2 = Some sp" by simp
    with get_parsed_domain_regexes_keeps[of re ?s2'] g
    have k: "fs s3 = fs s2" "sandbox_patches s3 = Some sp" by simp_all
    show ?thesis
    proof (cases r3)
      case (Inl e)
      with a Inr g k show ?thesis by (simp add: generate_patches_def)
    next
      case rules: (Inr rules)
      have "p \<notin> set (rglob_patch (fs s3) sp)"
        using assms(2) rglob_patch_below by blast
      from domain_substitute_untouched[OF this, of re rules False s3] a Inr g k rules
      show ?thesis by (simp add: generate_patches_def)
    qed
  qed
qed

section \<open>Properties of the archive extractor\<close>

text \<open>
  C2, on an input where the code fails. The archive holds the member
  \<^verbatim>\<open>chromium-1/a\<close> twice and the cleaning list names \<^verbatim>\<open>a\<close> once. The first member
  is skipped and uses the entry up, so the second one is extracted: the path \<^verbatim>\<open>a\<close>
  is a cleaning-list entry that was matched and is in the sandbox as well, and no
  warning tells so.
\<close>

theorem repeated_member_is_extracted:
  "relative_name ''1'' \<lparr>name = ''chromium-1/a'', holds = File ''1''\<rparr> = ''a'' \<and>
   relative_name ''1'' \<lparr>name = ''chromium-1/a'', holds = File ''2''\<rparr> = ''a'' \<and>
   extract_source_archive (example_tarfile archive_with_repeated_member) [''a'']
       (source_state '''' ''a'') =
     (Inr (), [],
      (source_state '''' ''a'')
        \<lparr>fs := fs (source_state '''' ''a'') @ [([''build_sandbox'', ''a''], File ''2'')]\<rparr>) \<and>
   fst (setup_chromium_source example_hashlib (example_tarfile archive_with_repeated_member)
          False True True (source_state '''' ''a'')) = Inr () \<and>
   map_of (fs (snd (setup_chromium_source example_hashlib
          (example_tarfile archive_with_repeated_member)
          False True True (source_state '''' ''a'')))) [''build_sandbox'', ''a''] =
     Some (File ''2'') \<and>
   logger (snd (setup_chromium_source example_hashlib
          (example_tarfile archive_with_repeated_member)
          False True True (source_state '''' ''a''))) =
     [(INFO, ''Extracting source archive into building sandbox...'')]"
  by code_simp

text \<open>
  C3, on an input where the code fails. The cleaning list names \<^verbatim>\<open>a\<close> twice, as
  when the common and the platform list both name it, and the archive holds
  \<^verbatim>\<open>chromium-1/a\<close>. The member is skipped and one of the two entries is removed; the
  other stays in the list, and the warning that the file does not exist in the tar
  file is logged for a path that the archive holds.
\<close>

theorem repeated_entry_is_left_over:
  "relative_name ''1'' \<lparr>name = ''chromium-1/a'', holds = File ''1''\<rparr> = ''a'' \<and>
   fst (read_list_resource (source_state '''' (''a'' @ [LF] @ ''a'' @ [LF]))
          CLEANING_LIST False) = Inr [''a'', ''a''] \<and>
   extract_source_archive (example_tarfile archive_with_one_member) [''a'', ''a'']
       (source_state '''' (''a'' @ [LF] @ ''a'' @ [LF])) =
     (Inr (), [''a''], source_state '''' (''a'' @ [LF] @ ''a'' @ [LF])) \<and>
   fst (setup_chromium_source example_hashlib (example_tarfile archive_with_one_member)
          False True True (source_state '''' (''a'' @ [LF] @ ''a'' @ [LF]))) = Inr () \<and>
   map_of (fs (snd (setup_chromium_source example_hashlib
          (example_tarfile archive_with_one_member)
          False True True (source_state '''' (''a'' @ [LF] @ ''a'' @ [LF])))))
     [''build_sandbox'', ''a''] = None \<and>
   logger (snd (setup_chromium_source example_hashlib
          (example_tarfile archive_with_one_member)
          False True True (source_state '''' (''a'' @ [LF] @ ''a'' @ [LF])))) =
     [(INFO, ''Extracting source archive into building sandbox...''),
      (WARNING, ''File does not exist in tar file: a'')]"
  by code_simp

text \<open>
  For comparison, the scenario of the specification: the cleaning list names
  \<^verbatim>\<open>a/b.txt\<close> and \<^verbatim>\<open>c/d.txt\<close>, the archive holds \<^verbatim>\<open>a/b.txt\<close> and \<^verbatim>\<open>e/f.txt\<close>. The
  sandbox gets \<^verbatim>\<open>e/f.txt\<close> only and \<^verbatim>\<open>c/d.txt\<close> is reported.
\<close>

lemma specification_scenario_example:
  "fs (snd (setup_chromium_source example_hashlib
          (example_tarfile [\<lparr>name = ''chromium-1/a/b.txt'', holds = File ''x''\<rparr>,
                            \<lparr>name = ''chromium-1/e/f.txt'', holds = File ''y''\<rparr>])
          False True True (source_state '''' (''a/b.txt'' @ [LF] @ ''c/d.txt'' @ [LF])))) =
     fs (source_state '''' (''a/b.txt'' @ [LF] @ ''c/d.txt'' @ [LF])) @
       [([''build_sandbox'', ''e'', ''f.txt''], File ''y'')] \<and>
   logger (snd (setup_chromium_source example_hashlib
          (example_tarfile [\<lparr>name = ''chromium-1/a/b.txt'', holds = File ''x''\<rparr>,
                            \<lparr>name = ''chromium-1/e/f.txt'', holds = File ''y''\<rparr>])
          False True True (source_state '''' (''a/b.txt'' @ [LF] @ ''c/d.txt'' @ [LF])))) =
     [(INFO, ''Extracting source archive into building sandbox...''),
      (WARNING, ''File does not exist in tar file: c/d.txt'')]"
  by code_simp

subsection \<open>What is left of the cleaning list\<close>

lemma extract_members_remaining:
  assumes "extract_members tf ms cl s = (Inr u, cl', s')"
  shows "cl' = foldl (\<lambda>c r. remove1 r c) cl (map (relative_name (version s)) ms)"
  using assms
proof (induction ms arbitrary: cl s)
  case Nil
  then show ?case by simp
next
  case (Cons ti ms)
  show ?case
  proof (cases "relative_to (PurePosixPath (name ti)) (PurePosixPath (''chromium-'' @ version s))")
    case (Inl e)
    with Cons.prems show ?thesis by simp
  next
    case (Inr rp)
    then have rn: "relative_name (version s) ti = str_of_path rp"
      by (simp add: relative_name_def)
    show ?thesis
    proof (cases "str_of_path rp \<in> set cl")
      case True
      with Cons.prems Inr
      have "extract_members tf ms (remove1 (str_of_path rp) cl) s = (Inr u, cl', s')"
        by simp
      from Cons.IH[OF this] rn show ?thesis by simp
    next
      case False
      then have same: "remove1 (str_of_path rp) cl = cl" by (simp add: remove1_idem)
      show ?thesis
      proof (cases "extract_member tf ti (joinpath (sandbox_root s) rp) (fs s)")
        case (Inl e)
        with Cons.prems Inr False show ?thesis by (simp add: Let_def)
      next
        case f: (Inr f)
        with Cons.prems Inr False
        have "extract_members tf ms cl (s\<lparr>fs := f\<rparr>) = (Inr u, cl', s')"
          by (simp add: Let_def)
        from Cons.IH[OF this] rn same show ?thesis by simp
      qed
    qed
  qed
qed

lemma foldl_remove1_distinct:
  "distinct cl \<Longrightarrow> foldl (\<lambda>c r. remove1 r c) cl rs = filter (\<lambda>x. x \<notin> set rs) cl"
proof (induction rs arbitrary: cl)
  case Nil
  then show ?case by simp
next
  case (Cons r rs)
  from Cons.prems have d: "distinct (remove1 r cl)" by simp
  from Cons.prems have "remove1 r cl = filter (\<lambda>x. x \<noteq> r) cl"
    by (auto simp: distinct_remove1_removeAll removeAll_filter_not_eq intro: filter_cong)
  with Cons.IH[OF d] show ?case
    by (auto intro: filter_cong)
qed

text \<open>
  With a cleaning list that names no path twice the code does what C3 says: after an
  extraction that completes, the list holds the entries that are the relative path of
  no member of the archive, in their order.
\<close>

lemma remaining_entries_without_repetition:
  assumes "distinct cleaning_list"
    and "tar_open tf (fs s) (sourcearchive s) = Inr members"
    and "extract_source_archive tf cleaning_list s = (Inr u, remaining, s')"
  shows "remaining =
           filter (\<lambda>x. x \<notin> set (map (relative_name (version s)) members)) cleaning_list"
proof -
  from assms(2,3) have "extract_members tf members cleaning_list s = (Inr u, remaining, s')"
    by (simp add: extract_source_archive_def)
  from extract_members_remaining[OF this] foldl_remove1_distinct[OF assms(1)]
  show ?thesis by simp
qed

subsection \<open>What is extracted and what is skipped\<close>

text \<open>
  An extraction that completes has extracted the members of \<open>extracted_members\<close>, in
  their order, and nothing else.
\<close>

lemma extract_members_extracts:
  assumes "extract_members tf ms cl s = (Inr u, cl', s')"
  shows "extract_all tf (sandbox_root s) (version s) (extracted_members (version s) cl ms) (fs s) =
           Inr (fs s')"
  using assms
proof (induction ms arbitrary: cl s)
  case Nil
  then show ?case by simp
next
  case (Cons ti ms)
  show ?case
  proof (cases "relative_to (PurePosixPath (name ti)) (PurePosixPath (''chromium-'' @ version s))")
    case (Inl e)
    with Cons.prems show ?thesis by simp
  next
    case (Inr rp)
    then have rn: "relative_name (version s) ti = str_of_path rp"
      by (simp add: relative_name_def)
    show ?thesis
    proof (cases "str_of_path rp \<in> set cl")
      case True
      with Cons.prems Inr
      have "extract_members tf ms (remove1 (str_of_path rp) cl) s = (Inr u, cl', s')"
        by simp
      from Cons.IH[OF this] rn True show ?thesis by simp
    next
      case False
      show ?thesis
      proof (cases "extract_member tf ti (joinpath (sandbox_root s) rp) (fs s)")
        case (Inl e)
        with Cons.prems Inr False show ?thesis by (simp add: Let_def)
      next
        case f: (Inr f)
        with Cons.prems Inr False
        have "extract_members tf ms cl (s\<lparr>fs := f\<rparr>) = (Inr u, cl', s')"
          by (simp add: Let_def)
        from Cons.IH[OF this] rn False Inr f show ?thesis by simp
      qed
    qed
  qed
qed

text \<open>
  Every member is skipped or extracted, and what is skipped is in the cleaning list as
  the very string of its relative path.
\<close>

lemma skipped_or_extracted:
  "set (map (relative_name v) (extracted_members v cl ms)) \<union> set (skipped_names v cl ms) =
     set (map (relative_name v) ms)"
  by (induction ms arbitrary: cl) auto

lemma skipped_names_in_cleaning_list: "set (skipped_names v cl ms) \<subseteq> set cl"
proof (induction ms arbitrary: cl)
  case Nil
  then show ?case by simp
next
  case (Cons ti ms)
  have "set (skipped_names v (remove1 (relative_name v ti) cl) ms) \<subseteq> set cl"
    using Cons.IH[of "remove1 (relative_name v ti) cl"] set_remove1_subset by fastforce
  with Cons.IH[of cl] show ?case by auto
qed

text \<open>
  When no two members of the archive have the same relative path, nothing is both
  skipped and extracted.
\<close>

lemma skipped_names_are_members:
  "set (skipped_names v cl ms) \<subseteq> set (map (relative_name v) ms)"
  by (induction ms arbitrary: cl) auto

lemma extracted_names_are_members:
  "set (map (relative_name v) (extracted_members v cl ms)) \<subseteq> set (map (relative_name v) ms)"
  by (induction ms arbitrary: cl) auto

lemma skipped_and_extracted_disjoint:
  assumes "distinct (map (relative_name v) ms)"
  shows "set (map (relative_name v) (extracted_members v cl ms)) \<inter>
           set (skipped_names v cl ms) = {}"
  using assms
proof (induction ms arbitrary: cl)
  case Nil
  then show ?case by simp
next
  case (Cons ti ms)
  from Cons.prems have new: "relative_name v ti \<notin> set (map (relative_name v) ms)"
    and d: "distinct (map (relative_name v) ms)" by simp_all
  show ?case
  proof (cases "relative_name v ti \<in> set cl")
    case True
    from new extracted_names_are_members[of v "remove1 (relative_name v ti) cl" ms]
    have "relative_name v ti \<notin>
            set (map (relative_name v) (extracted_members v (remove1 (relative_name v ti) cl) ms))"
      by blast
    with Cons.IH[OF d, of "remove1 (relative_name v ti) cl"] True show ?thesis by auto
  next
    case False
    from new skipped_names_are_members[of v cl ms]
    have "relative_name v ti \<notin> set (skipped_names v cl ms)" by blast
    with Cons.IH[OF d, of cl] False show ?thesis by auto
  qed
qed

end
